(* ===== verification/Prelude.thy ===== *)
theory Prelude
  imports Main "HOL-Library.Word"
begin

section \<open>Shared types, list windows and the fault monad\<close>

text \<open>
  The vocabulary every component of the model uses: the machine types of the Rust source, the
  faults a routine can end in, and the list lemmas the two ring buffers share.
\<close>

type_synonym u8 = "8 word"
type_synonym u16 = "16 word"
type_synonym u32 = "32 word"
type_synonym u64 = "64 word"
type_synonym bytes = "u8 list"

text \<open>Raw file descriptors and process ids are C ints; the model reads them as integers.\<close>

type_synonym fd = int
type_synonym pid = int

text \<open>Monotonic \<open>Instant\<close> values, in nanoseconds since an arbitrary origin.\<close>

type_synonym instant = nat

subsection \<open>Faults\<close>

text \<open>
  Besides its value a Rust routine can panic (a slice check, an index, an \<open>unwrap\<close>), an
  \<open>unsafe\<close> block can touch memory outside its mapping, and a spin loop can run forever.
  Each is a value here, so that its absence is something to prove.
\<close>

datatype fault = Panic | Out_of_bounds | Diverges

type_synonym 'a res = "fault + 'a"

fun bind_res :: "'a res \<Rightarrow> ('a \<Rightarrow> 'b res) \<Rightarrow> 'b res" where
  "bind_res (Inl e) f = Inl e"
| "bind_res (Inr a) f = f a"

fun run_res :: "('s \<Rightarrow> 'x \<Rightarrow> 's res) \<Rightarrow> 's \<Rightarrow> 'x list \<Rightarrow> 's res" where
  "run_res f s [] = Inr s"
| "run_res f s (x # xs) = bind_res (f s x) (\<lambda>s'. run_res f s' xs)"

lemma bind_res_Inr_iff: "bind_res m f = Inr b \<longleftrightarrow> (\<exists>a. m = Inr a \<and> f a = Inr b)"
  by (cases m) auto

lemma run_res_append: "run_res f s (xs @ ys) = bind_res (run_res f s xs) (\<lambda>s'. run_res f s' ys)"
proof (induction xs arbitrary: s)
  case Nil
  then show ?case by simp
next
  case (Cons x xs)
  then show ?case by (cases "f s x") auto
qed

lemma run_res_total:
  assumes "P s" "\<And>x s. x \<in> set xs \<Longrightarrow> P s \<Longrightarrow> \<exists>s'. f s x = Inr s' \<and> P s'"
  shows "\<exists>s'. run_res f s xs = Inr s' \<and> P s'"
  using assms
proof (induction xs arbitrary: s)
  case Nil
  then show ?case by simp
next
  case (Cons x xs)
  obtain s1 where s1: "f s x = Inr s1" "P s1" using Cons.prems(1) Cons.prems(2) [of x s] by auto
  have "\<exists>s'. run_res f s1 xs = Inr s' \<and> P s'"
    using s1(2) Cons.prems(2) by (intro Cons.IH) auto
  with s1 show ?case by simp
qed

subsection \<open>Windows of a list\<close>

text \<open>The last \<open>n\<close> elements, or all of them when there are fewer.\<close>

definition last_n :: "nat \<Rightarrow> 'a list \<Rightarrow> 'a list" where
  "last_n n xs = drop (length xs - n) xs"

lemma length_last_n [simp]: "length (last_n n xs) = min n (length xs)"
  by (simp add: last_n_def)

lemma last_n_0 [simp]: "last_n 0 xs = []"
  by (simp add: last_n_def)

lemma last_n_Nil [simp]: "last_n n [] = []"
  by (simp add: last_n_def)

lemma last_n_all [simp]: "length xs \<le> n \<Longrightarrow> last_n n xs = xs"
  by (simp add: last_n_def)

lemma last_n_append: "last_n n (xs @ ys) = last_n (n - length ys) xs @ last_n n ys"
  by (cases "n \<le> length ys") (simp_all add: last_n_def)

lemma last_n_last_n [simp]: "last_n m (last_n n xs) = last_n (min m n) xs"
  by (cases "n \<le> length xs"; cases "m \<le> n") (simp_all add: last_n_def min_def)

lemma last_n_min [simp]: "last_n (min n (length xs)) xs = last_n n xs"
  by (simp add: min_def)

lemma last_n_of_drop: "k + l \<le> length xs \<Longrightarrow> last_n k (drop l xs) = last_n k xs"
  by (simp add: last_n_def)

lemma last_n_suffix: "\<exists>ys. xs = ys @ last_n n xs"
  by (metis append_take_drop_id last_n_def)

lemma last_n_drop: "length ys = n \<Longrightarrow> last_n n (xs @ ys) = ys"
  by (simp add: last_n_append)

text \<open>Overwriting the elements from an index on, as \<open>copy_from_slice\<close> does on a subrange.\<close>

definition overwrite :: "'a list \<Rightarrow> nat \<Rightarrow> 'a list \<Rightarrow> 'a list" where
  "overwrite xs i ys = take i xs @ ys @ drop (i + length ys) xs"

lemma length_overwrite [simp]: "i + length ys \<le> length xs \<Longrightarrow> length (overwrite xs i ys) = length xs"
  by (simp add: overwrite_def)

lemma overwrite_Nil [simp]: "overwrite xs i [] = xs"
  by (simp add: overwrite_def)

lemma overwrite_whole [simp]: "length ys = length xs \<Longrightarrow> overwrite xs 0 ys = ys"
  by (simp add: overwrite_def)

lemma take_overwrite_before [simp]:
  "n \<le> i \<Longrightarrow> i \<le> length xs \<Longrightarrow> take n (overwrite xs i ys) = take n xs"
  by (simp add: overwrite_def min_def)

lemma drop_overwrite_after:
  "i + length ys \<le> n \<Longrightarrow> i \<le> length xs \<Longrightarrow> drop n (overwrite xs i ys) = drop n xs"
  by (simp add: overwrite_def)

subsection \<open>The circular write of both ring buffers\<close>

text \<open>
  Both ring buffers store \<open>d\<close> at index \<open>w\<close> of a buffer \<open>b\<close> and continue at the front
  when the end is reached. Seen from the write position (\<open>rotate w b\<close>: oldest byte first)
  the write drops the oldest bytes and appends \<open>d\<close>.
\<close>

definition circ_put :: "'a list \<Rightarrow> nat \<Rightarrow> 'a list \<Rightarrow> 'a list" where
  "circ_put b w d =
     (let first = length b - w in
      if length d \<le> first then overwrite b w d
      else overwrite (overwrite b w (take first d)) 0 (drop first d))"

lemma length_circ_put [simp]:
  "w \<le> length b \<Longrightarrow> length d \<le> length b \<Longrightarrow> length (circ_put b w d) = length b"
  by (simp add: circ_put_def Let_def)

lemma rotate_circ_put:
  assumes w: "w < length b" and d: "length d < length b"
  shows "rotate ((w + length d) mod length b) (circ_put b w d) = drop (length d) (rotate w b) @ d"
proof -
  let ?c = "length b" and ?l = "length d"
  have rw: "rotate w b = drop w b @ take w b"
    using w by (simp add: rotate_drop_take)
  consider (inside) "w + ?l < ?c" | (edge) "w + ?l = ?c" | (wrap) "?c < w + ?l"
    by linarith
  then show ?thesis
  proof cases
    case inside
    then have "?l \<le> ?c - w" by simp
    then have "circ_put b w d = take w b @ d @ drop (w + ?l) b"
      using w by (simp add: circ_put_def overwrite_def Let_def le_diff_conv2)
    with inside w d show ?thesis
      by (simp add: rw rotate_drop_take add.commute)
  next
    case edge
    then have "?l \<le> ?c - w" by simp
    then have "circ_put b w d = take w b @ d"
      using edge by (simp add: circ_put_def overwrite_def Let_def)
    with edge w d show ?thesis
      by (simp add: rw)
  next
    case wrap
    let ?k = "?c - w"
    have k: "?k < ?l" "?l - ?k \<le> w" using wrap w d by auto
    have "circ_put b w d = drop ?k d @ drop (?l - ?k) (take w b) @ take ?k d"
      using k w d by (simp add: circ_put_def overwrite_def Let_def)
    moreover have "(w + ?l) mod ?c = ?l - ?k"
      using wrap w d by (simp add: mod_if add.commute)
    moreover have "?l - ?k < ?c" using k w by simp
    ultimately show ?thesis
      using k w d by (simp add: rw rotate_drop_take)
  qed
qed

text \<open>
  What a circular buffer with write position \<open>w\<close> says about the bytes \<open>h\<close> written so
  far: read from the write position on, it ends in the newest bytes of \<open>h\<close>, as many as fit;
  and until it is full the write position counts them.
\<close>

definition circ_rep :: "'a list \<Rightarrow> nat \<Rightarrow> 'a list \<Rightarrow> bool" where
  "circ_rep b w h \<longleftrightarrow>
     (w < length b \<or> b = [] \<and> w = 0) \<and>
     last_n (min (length b) (length h)) (rotate w b) = last_n (length b) h \<and>
     (length h < length b \<longrightarrow> w = length h)"

lemma circ_rep_init: "circ_rep b 0 []"
  by (simp add: circ_rep_def)

lemma circ_rep_put:
  assumes "circ_rep b w h" and "length d < length b"
  shows "circ_rep (circ_put b w d) ((w + length d) mod length b) (h @ d)"
proof -
  let ?c = "length b" and ?l = "length d"
  let ?m = "min ?c (length h)" and ?m' = "min ?c (length h + ?l)"
  from assms have w: "w < ?c" and v: "last_n ?m (rotate w b) = last_n ?c h"
    and nf: "length h < ?c \<longrightarrow> w = length h"
    by (auto simp: circ_rep_def)
  have rot: "rotate ((w + ?l) mod ?c) (circ_put b w d) = drop ?l (rotate w b) @ d"
    by (rule rotate_circ_put [OF w assms(2)])
  have split: "last_n (?m' - ?l) (drop ?l (rotate w b)) = last_n (?m' - ?l) (rotate w b)"
    using assms(2) by (intro last_n_of_drop) simp
  have k: "?m' - ?l = min (?c - ?l) (length h)" by simp
  have "?m' - ?l \<le> ?m" by linarith
  then have "last_n (?m' - ?l) (rotate w b) = last_n (?m' - ?l) (last_n ?m (rotate w b))"
    by (simp only: last_n_last_n min_absorb1)
  also have "\<dots> = last_n (min (?c - ?l) (length h)) (last_n ?c h)"
    by (simp only: v k)
  also have "\<dots> = last_n (?c - ?l) h"
  proof -
    have "min (min (?c - ?l) (length h)) ?c = min (?c - ?l) (length h)" by linarith
    then show ?thesis by (simp only: last_n_last_n last_n_min)
  qed
  finally have old: "last_n (?m' - ?l) (drop ?l (rotate w b)) = last_n (?c - ?l) h"
    by (simp only: split)
  have "last_n ?m' d = d" "last_n ?c d = d"
    using assms(2) by simp_all
  with old have "last_n ?m' (drop ?l (rotate w b) @ d) = last_n ?c (h @ d)"
    by (simp only: last_n_append)
  moreover have "length (h @ d) < ?c \<longrightarrow> (w + ?l) mod ?c = length (h @ d)"
    using nf by simp
  moreover have "(w + ?l) mod ?c < ?c" using w by (intro mod_less_divisor) linarith
  ultimately show ?thesis
    using w assms(2) by (simp add: circ_rep_def rot)
qed

lemma circ_rep_full_put:
  "c \<le> length d \<Longrightarrow> circ_rep (last_n c d) 0 (h @ d)"
  by (cases "c = 0") (auto simp: circ_rep_def last_n_append min_def last_n_def)

text \<open>What the readers take out: the whole window when full, the prefix up to \<open>w\<close> before.\<close>

lemma circ_rep_full:
  assumes "circ_rep b w h" and "length b \<le> length h"
  shows "drop w b @ take w b = last_n (length b) h"
proof -
  from assms have "rotate w b = last_n (length b) h"
    by (simp add: circ_rep_def min_def)
  moreover have "rotate w b = drop w b @ take w b"
    using assms(1) by (auto simp: circ_rep_def rotate_drop_take)
  ultimately show ?thesis by simp
qed

lemma circ_rep_partial:
  assumes "circ_rep b w h" and "length h < length b"
  shows "take w b = h"
proof -
  from assms have w: "w = length h" "w < length b"
    and "last_n w (rotate w b) = h"
    by (auto simp: circ_rep_def min_def)
  moreover have "rotate w b = drop w b @ take w b"
    using w by (simp add: rotate_drop_take)
  ultimately show ?thesis by (simp add: last_n_append)
qed

text \<open>The newest \<open>l\<close> bytes, as an incremental reader finds them by stepping back from \<open>w\<close>.\<close>

lemma circ_rep_newest:
  assumes "circ_rep b w h" and "l \<le> length h" and "l < length b"
  shows "last_n l h = last_n (l - w) (drop w b) @ last_n l (take w b)"
proof -
  from assms have w: "w < length b" by (auto simp: circ_rep_def)
  have "last_n l (rotate w b) = last_n l (last_n (min (length b) (length h)) (rotate w b))"
    using assms by (simp add: min_def)
  also have "\<dots> = last_n l (last_n (length b) h)"
    using assms(1) by (simp only: circ_rep_def)
  also have "\<dots> = last_n l h"
    using assms by (simp add: min_def)
  finally have "last_n l h = last_n l (drop w b @ take w b)"
    using w by (simp add: rotate_drop_take)
  with w show ?thesis by (simp add: last_n_append)
qed

end
