(* ===== verification/Memory.thy ===== *)
theory Memory
  imports Prelude
begin

section \<open>Byte-level memory and integer encodings\<close>

text \<open>
  The shared-memory mapping of \<open>shared_ring.rs\<close> and the length prefix of \<open>protocol.rs\<close> are
  bytes. This theory encodes integers as little- and big-endian bytes, and reads and writes
  them at an offset of a byte list. Native-endian accesses (\<open>ptr::write\<close>, the atomics) are
  little-endian: the targets of the daemon are arm64 and x86-64.
\<close>

fun le_bytes :: "nat \<Rightarrow> nat \<Rightarrow> bytes" where
  "le_bytes 0 x = []"
| "le_bytes (Suc n) x = of_nat (x mod 256) # le_bytes n (x div 256)"

fun le_nat :: "bytes \<Rightarrow> nat" where
  "le_nat [] = 0"
| "le_nat (b # bs) = unat b + 256 * le_nat bs"

definition be_bytes :: "nat \<Rightarrow> nat \<Rightarrow> bytes" where
  "be_bytes n x = rev (le_bytes n x)"

definition be_nat :: "bytes \<Rightarrow> nat" where
  "be_nat bs = le_nat (rev bs)"

lemma length_le_bytes [simp]: "length (le_bytes n x) = n"
  by (induction n arbitrary: x) auto

lemma length_be_bytes [simp]: "length (be_bytes n x) = n"
  by (simp add: be_bytes_def)

lemma unat_u8_mod: "unat (of_nat (x mod 256) :: u8) = x mod 256"
  by (simp add: unat_of_nat take_bit_eq_mod)

lemma le_nat_le_bytes [simp]: "x < 256 ^ n \<Longrightarrow> le_nat (le_bytes n x) = x"
proof (induction n arbitrary: x)
  case 0
  then show ?case by simp
next
  case (Suc n)
  then have "x div 256 < 256 ^ n"
    by (simp add: less_mult_imp_div_less mult.commute)
  with Suc.IH show ?case
    by (simp add: unat_u8_mod del: unat_of_nat)
qed

lemma be_nat_be_bytes [simp]: "x < 256 ^ n \<Longrightarrow> be_nat (be_bytes n x) = x"
  by (simp add: be_nat_def be_bytes_def)

lemma le_nat_bound: "le_nat bs < 256 ^ length bs"
proof (induction bs)
  case Nil
  then show ?case by simp
next
  case (Cons b bs)
  have "unat b < 256" using unsigned_less [of b, where 'a = nat] by simp
  with Cons show ?case by simp
qed

lemma be_nat_bound: "be_nat bs < 256 ^ length bs"
  using le_nat_bound [of "rev bs"] by (simp add: be_nat_def)

subsection \<open>Reading a range\<close>

definition peek :: "'a list \<Rightarrow> nat \<Rightarrow> nat \<Rightarrow> 'a list" where
  "peek xs i n = take n (drop i xs)"

lemma length_peek [simp]: "i + n \<le> length xs \<Longrightarrow> length (peek xs i n) = n"
  by (simp add: peek_def)

lemma peek_overwrite_same [simp]:
  "i + length ys \<le> length xs \<Longrightarrow> n = length ys \<Longrightarrow> peek (overwrite xs i ys) i n = ys"
  by (simp add: peek_def overwrite_def)

lemma peek_overwrite_before:
  "i + n \<le> j \<Longrightarrow> j \<le> length xs \<Longrightarrow> peek (overwrite xs j ys) i n = peek xs i n"
  by (simp add: peek_def take_drop min_def)

lemma peek_overwrite_after:
  "j + length ys \<le> i \<Longrightarrow> j \<le> length xs \<Longrightarrow> peek (overwrite xs j ys) i n = peek xs i n"
  by (simp add: peek_def drop_overwrite_after)

text \<open>Overwriting inside a range overwrites the range.\<close>

lemma peek_overwrite_inside:
  assumes "j + length ys \<le> n" "i + n \<le> length xs"
  shows "peek (overwrite xs (i + j) ys) i n = overwrite (peek xs i n) j ys"
  using assms by (simp add: peek_def overwrite_def drop_take add.commute add.left_commute)

lemma peek_peek: "j + m \<le> n \<Longrightarrow> peek (peek xs i n) j m = peek xs (i + j) m"
  by (simp add: peek_def drop_take min_def add.commute)

lemma peek_0 [simp]: "peek xs 0 n = take n xs"
  by (simp add: peek_def)

lemma peek_to_end [simp]: "length xs = i + n \<Longrightarrow> peek xs i n = drop i xs"
  by (simp add: peek_def)

subsection \<open>Integers in memory\<close>

definition load_u32 :: "bytes \<Rightarrow> nat \<Rightarrow> u32" where
  "load_u32 mem off = of_nat (le_nat (peek mem off 4))"

definition load_u64 :: "bytes \<Rightarrow> nat \<Rightarrow> u64" where
  "load_u64 mem off = of_nat (le_nat (peek mem off 8))"

definition store_u32 :: "bytes \<Rightarrow> nat \<Rightarrow> u32 \<Rightarrow> bytes" where
  "store_u32 mem off v = overwrite mem off (le_bytes 4 (unat v))"

definition store_u64 :: "bytes \<Rightarrow> nat \<Rightarrow> u64 \<Rightarrow> bytes" where
  "store_u64 mem off v = overwrite mem off (le_bytes 8 (unat v))"

lemma length_store_u32 [simp]: "off + 4 \<le> length mem \<Longrightarrow> length (store_u32 mem off v) = length mem"
  by (simp add: store_u32_def)

lemma length_store_u64 [simp]: "off + 8 \<le> length mem \<Longrightarrow> length (store_u64 mem off v) = length mem"
  by (simp add: store_u64_def)

lemma load_store_u32 [simp]: "off + 4 \<le> length mem \<Longrightarrow> load_u32 (store_u32 mem off v) off = v"
  using unsigned_less [of v, where 'a = nat] by (simp add: load_u32_def store_u32_def)

lemma load_store_u64 [simp]: "off + 8 \<le> length mem \<Longrightarrow> load_u64 (store_u64 mem off v) off = v"
  using unsigned_less [of v, where 'a = nat] by (simp add: load_u64_def store_u64_def)

text \<open>Accesses to disjoint ranges do not interfere. The collection serves all of them.\<close>

named_theorems mem_frame

lemma load_u64_overwrite [mem_frame]:
  "off + 8 \<le> j \<or> j + length ys \<le> off \<Longrightarrow> j \<le> length mem \<Longrightarrow>
   load_u64 (overwrite mem j ys) off = load_u64 mem off"
  by (auto simp: load_u64_def peek_overwrite_before peek_overwrite_after)

lemma load_u32_overwrite [mem_frame]:
  "off + 4 \<le> j \<or> j + length ys \<le> off \<Longrightarrow> j \<le> length mem \<Longrightarrow>
   load_u32 (overwrite mem j ys) off = load_u32 mem off"
  by (auto simp: load_u32_def peek_overwrite_before peek_overwrite_after)

lemma load_u64_store_u64 [mem_frame]:
  "off + 8 \<le> j \<or> j + 8 \<le> off \<Longrightarrow> j \<le> length mem \<Longrightarrow>
   load_u64 (store_u64 mem j v) off = load_u64 mem off"
  by (simp add: store_u64_def load_u64_overwrite)

lemma load_u64_store_u32 [mem_frame]:
  "off + 8 \<le> j \<or> j + 4 \<le> off \<Longrightarrow> j \<le> length mem \<Longrightarrow>
   load_u64 (store_u32 mem j v) off = load_u64 mem off"
  by (simp add: store_u32_def load_u64_overwrite)

lemma load_u32_store_u64 [mem_frame]:
  "off + 4 \<le> j \<or> j + 8 \<le> off \<Longrightarrow> j \<le> length mem \<Longrightarrow>
   load_u32 (store_u64 mem j v) off = load_u32 mem off"
  by (simp add: store_u64_def load_u32_overwrite)

lemma load_u32_store_u32 [mem_frame]:
  "off + 4 \<le> j \<or> j + 4 \<le> off \<Longrightarrow> j \<le> length mem \<Longrightarrow>
   load_u32 (store_u32 mem j v) off = load_u32 mem off"
  by (simp add: store_u32_def load_u32_overwrite)

lemma peek_store_u64 [mem_frame]:
  "off + n \<le> j \<or> j + 8 \<le> off \<Longrightarrow> j \<le> length mem \<Longrightarrow>
   peek (store_u64 mem j v) off n = peek mem off n"
  by (auto simp: store_u64_def peek_overwrite_before peek_overwrite_after)

lemma take_store_u64 [mem_frame]:
  "n \<le> j \<Longrightarrow> j \<le> length mem \<Longrightarrow> take n (store_u64 mem j v) = take n mem"
  by (simp add: store_u64_def)

lemma le_nat_zeros: "le_nat (replicate n 0) = 0"
  by (induction n) simp_all

lemma load_u64_zeros: "off + 8 \<le> n \<Longrightarrow> load_u64 (replicate n 0) off = 0"
  by (simp add: load_u64_def peek_def min_def le_nat_zeros del: replicate.simps)

text \<open>A load depends on the bytes below its end only.\<close>

lemma peek_take: "i + m \<le> n \<Longrightarrow> peek (take n xs) i m = peek xs i m"
  by (simp add: peek_def drop_take)

lemma peek_take_cong: "take n xs = take n ys \<Longrightarrow> i + m \<le> n \<Longrightarrow> peek xs i m = peek ys i m"
  using peek_take [of i m n xs] peek_take [of i m n ys] by simp

lemma load_take_cong:
  "take n xs = take n ys \<Longrightarrow> i + 4 \<le> n \<Longrightarrow> load_u32 xs i = load_u32 ys i"
  "take n xs = take n ys \<Longrightarrow> i + 8 \<le> n \<Longrightarrow> load_u64 xs i = load_u64 ys i"
  using peek_take_cong [of n xs ys i 4] peek_take_cong [of n xs ys i 8]
  by (simp_all add: load_u32_def load_u64_def)

lemma of_nat_le_of_nat_u64:
  "a < 2 ^ 64 \<Longrightarrow> b < 2 ^ 64 \<Longrightarrow> (of_nat a :: u64) \<le> of_nat b \<longleftrightarrow> a \<le> b"
  by (simp add: word_le_nat_alt unat_of_nat take_bit_nat_eq_self)

lemma of_nat_less_of_nat_u64:
  "a < 2 ^ 64 \<Longrightarrow> b < 2 ^ 64 \<Longrightarrow> (of_nat a :: u64) < of_nat b \<longleftrightarrow> a < b"
  by (simp add: word_less_nat_alt unat_of_nat take_bit_nat_eq_self)

lemma unat_of_nat_u64: "a < 2 ^ 64 \<Longrightarrow> unat (of_nat a :: u64) = a"
  by (simp add: unat_of_nat take_bit_nat_eq_self)

end
