(* ===== verification/Ring_Buffer.thy ===== *)
theory Ring_Buffer
  imports Memory
begin

section \<open>The in-process ring buffer (\<open>ring_buffer.rs\<close>)\<close>

text \<open>
  The circular byte buffer of \<open>pty-daemon/src/ring_buffer.rs\<close>. Slice operations of safe
  Rust check their ranges, so a failed check is the fault \<open>Panic\<close>; \<open>total_written\<close> is
  kept at its 64 bits and wraps, lengths and positions (\<open>usize\<close>) index an allocated
  buffer and are natural numbers.
\<close>

record ring_buffer =
  rb_buf :: bytes
  rb_write_pos :: nat
  rb_total_written :: u64
  rb_capacity :: nat

definition rb_default_ring_size :: nat where
  "rb_default_ring_size = 1024 * 1024"

definition rb_new :: "nat \<Rightarrow> ring_buffer" where
  "rb_new capacity =
     \<lparr>rb_buf = replicate capacity 0, rb_write_pos = 0, rb_total_written = 0,
      rb_capacity = capacity\<rparr>"

text \<open>\<open>buf[i..i + d.len()].copy_from_slice(d)\<close>: panics when the range does not fit.\<close>

definition copy_into :: "bytes \<Rightarrow> nat \<Rightarrow> bytes \<Rightarrow> bytes res" where
  "copy_into buf i d = (if i + length d \<le> length buf then Inr (overwrite buf i d) else Inl Panic)"

definition rb_write :: "ring_buffer \<Rightarrow> bytes \<Rightarrow> ring_buffer res" where
  "rb_write rb data =
     (if data = [] then Inr rb
      else
        let len = length data in
        if rb_capacity rb \<le> len then
          let start = len - rb_capacity rb in
          if length (rb_buf rb) = length (drop start data) then
            Inr (rb\<lparr>rb_buf := drop start data, rb_write_pos := 0,
                   rb_total_written := rb_total_written rb + of_nat len\<rparr>)
          else Inl Panic
        else if rb_capacity rb < rb_write_pos rb then Inl Panic
        else
          let first_chunk = rb_capacity rb - rb_write_pos rb in
          bind_res
            (if len \<le> first_chunk then copy_into (rb_buf rb) (rb_write_pos rb) data
             else bind_res (copy_into (rb_buf rb) (rb_write_pos rb) (take first_chunk data))
                    (\<lambda>b. copy_into b 0 (drop first_chunk data)))
            (\<lambda>b. Inr (rb\<lparr>rb_buf := b,
                       rb_write_pos := (rb_write_pos rb + len) mod rb_capacity rb,
                       rb_total_written := rb_total_written rb + of_nat len\<rparr>)))"

definition rb_len :: "ring_buffer \<Rightarrow> nat" where
  "rb_len rb =
     (if of_nat (rb_capacity rb) \<le> rb_total_written rb then rb_capacity rb
      else unat (rb_total_written rb))"

definition rb_is_empty :: "ring_buffer \<Rightarrow> bool" where
  "rb_is_empty rb \<longleftrightarrow> rb_total_written rb = 0"

definition rb_dump :: "ring_buffer \<Rightarrow> bytes res" where
  "rb_dump rb =
     (if rb_len rb = 0 then Inr []
      else if length (rb_buf rb) < rb_write_pos rb then Inl Panic
      else if of_nat (rb_capacity rb) \<le> rb_total_written rb then
        Inr (drop (rb_write_pos rb) (rb_buf rb) @ take (rb_write_pos rb) (rb_buf rb))
      else Inr (take (rb_write_pos rb) (rb_buf rb)))"

text \<open>The soft terminal reset \<open>ESC [ ! p\<close> (DECSTR) that a replay starts with.\<close>

definition decstr :: bytes where
  "decstr = [0x1b, 0x5b, 0x21, 0x70]"

definition rb_dump_with_reset :: "ring_buffer \<Rightarrow> bytes res" where
  "rb_dump_with_reset rb =
     bind_res (rb_dump rb) (\<lambda>data. if data = [] then Inr data else Inr (decstr @ data))"

definition rb_clear :: "ring_buffer \<Rightarrow> ring_buffer" where
  "rb_clear rb = rb\<lparr>rb_write_pos := 0, rb_total_written := 0\<rparr>"

subsection \<open>The contract of a byte ring\<close>

text \<open>
  What both ring buffers promise to the code that fills and replays them: \<open>rep r h\<close> says
  that ring \<open>r\<close> has received the bytes \<open>h\<close> since it was created or cleared. A write
  appends to \<open>h\<close> and never faults; a dump returns the newest bytes that fit. The bound
  keeps the 64-bit counter of the bytes written from wrapping.
\<close>

locale byte_ring =
  fixes rep :: "'r \<Rightarrow> bytes \<Rightarrow> bool"
    and cap :: "'r \<Rightarrow> nat"
    and put :: "'r \<Rightarrow> bytes \<Rightarrow> 'r res"
    and get :: "'r \<Rightarrow> bytes res"
  assumes put_law: "rep r h \<Longrightarrow> length h + length d < 2 ^ 64 \<Longrightarrow>
      \<exists>r'. put r d = Inr r' \<and> rep r' (h @ d) \<and> cap r' = cap r"
    and get_law: "rep r h \<Longrightarrow> get r = Inr (last_n (cap r) h)"
begin

lemma puts_law:
  assumes "rep r h" and "length h + length (concat ds) < 2 ^ 64"
  shows "\<exists>r'. run_res put r ds = Inr r' \<and> rep r' (h @ concat ds) \<and> cap r' = cap r"
  using assms
proof (induction ds arbitrary: r h)
  case Nil
  then show ?case by simp
next
  case (Cons d ds)
  then obtain r1 where r1: "put r d = Inr r1" "rep r1 (h @ d)" "cap r1 = cap r"
    using put_law [of r h d] by auto
  with Cons.prems obtain r2 where "run_res put r1 ds = Inr r2"
      "rep r2 ((h @ d) @ concat ds)" "cap r2 = cap r1"
    using Cons.IH [of r1 "h @ d"] by auto
  with r1 show ?case by auto
qed

lemma replay_law:
  assumes "rep r h" and "length h + length (concat ds) < 2 ^ 64"
  shows "bind_res (run_res put r ds) get = Inr (last_n (cap r) (h @ concat ds))"
  using puts_law [OF assms] get_law by fastforce

lemma chunking_law:
  assumes "rep r h" and "length h + length (concat ds) < 2 ^ 64" and "concat ds = concat ds'"
  shows "bind_res (run_res put r ds) get = bind_res (run_res put r ds') get"
  using replay_law [OF assms(1), of ds] replay_law [OF assms(1), of ds'] assms(2,3) by simp

end

subsection \<open>The ring buffer keeps the contract\<close>

definition rb_rep :: "ring_buffer \<Rightarrow> bytes \<Rightarrow> bool" where
  "rb_rep rb h \<longleftrightarrow>
     length (rb_buf rb) = rb_capacity rb \<and> rb_capacity rb < 2 ^ 63 \<and>
     length h < 2 ^ 64 \<and> rb_total_written rb = of_nat (length h) \<and>
     circ_rep (rb_buf rb) (rb_write_pos rb) h"

lemma rb_rep_total_ge:
  "rb_rep rb h \<Longrightarrow> of_nat (rb_capacity rb) \<le> rb_total_written rb \<longleftrightarrow> rb_capacity rb \<le> length h"
  by (simp add: rb_rep_def of_nat_le_of_nat_u64)

lemma rb_rep_len: "rb_rep rb h \<Longrightarrow> rb_len rb = min (rb_capacity rb) (length h)"
  by (auto simp: rb_len_def rb_rep_total_ge) (auto simp: rb_rep_def unat_of_nat_u64)

lemma rb_rep_new: "capacity < 2 ^ 63 \<Longrightarrow> rb_rep (rb_new capacity) []"
  by (auto simp: rb_rep_def rb_new_def circ_rep_def)

lemma rb_rep_clear: "rb_rep rb h \<Longrightarrow> rb_rep (rb_clear rb) []"
  by (auto simp: rb_rep_def rb_clear_def circ_rep_def)

lemma rb_write_rep:
  assumes rep: "rb_rep rb h" and bound: "length h + length d < 2 ^ 64"
  shows "\<exists>rb'. rb_write rb d = Inr rb' \<and> rb_rep rb' (h @ d) \<and> rb_capacity rb' = rb_capacity rb"
proof (cases "d = []")
  case True
  with rep show ?thesis by (simp add: rb_write_def)
next
  case False
  from rep have len: "length (rb_buf rb) = rb_capacity rb"
    and tot: "rb_total_written rb = of_nat (length h)"
    and circ: "circ_rep (rb_buf rb) (rb_write_pos rb) h"
    and cap: "rb_capacity rb < 2 ^ 63"
    by (auto simp: rb_rep_def)
  show ?thesis
  proof (cases "rb_capacity rb \<le> length d")
    case True
    then have "circ_rep (last_n (rb_capacity rb) d) 0 (h @ d)"
      by (rule circ_rep_full_put)
    with True \<open>d \<noteq> []\<close> len tot cap bound show ?thesis
      by (simp add: rb_write_def Let_def rb_rep_def last_n_def)
  next
    case False
    then have d: "length d < length (rb_buf rb)" and w: "rb_write_pos rb < length (rb_buf rb)"
      using circ len by (auto simp: circ_rep_def)
    let ?b = "circ_put (rb_buf rb) (rb_write_pos rb) d"
    have "rb_write rb d =
        Inr (rb\<lparr>rb_buf := ?b, rb_write_pos := (rb_write_pos rb + length d) mod rb_capacity rb,
               rb_total_written := rb_total_written rb + of_nat (length d)\<rparr>)"
      using \<open>d \<noteq> []\<close> False d w len
      by (auto simp: rb_write_def Let_def copy_into_def circ_put_def)
    moreover have "circ_rep ?b ((rb_write_pos rb + length d) mod rb_capacity rb) (h @ d)"
      using circ_rep_put [OF circ d] len by simp
    ultimately show ?thesis
      using len tot cap bound d w by (simp add: rb_rep_def)
  qed
qed

lemma rb_dump_rep:
  assumes rep: "rb_rep rb h"
  shows "rb_dump rb = Inr (last_n (rb_capacity rb) h)"
proof -
  have len: "length (rb_buf rb) = rb_capacity rb"
    and circ: "circ_rep (rb_buf rb) (rb_write_pos rb) h"
    using rep by (auto simp: rb_rep_def)
  have w: "rb_write_pos rb \<le> length (rb_buf rb)"
    using circ by (auto simp: circ_rep_def)
  show ?thesis
    using circ_rep_full [OF circ] circ_rep_partial [OF circ] w len
    by (auto simp: rb_dump_def rb_rep_len [OF rep] rb_rep_total_ge [OF rep] min_def split: if_splits)
qed

interpretation rb: byte_ring rb_rep rb_capacity rb_write rb_dump
  by unfold_locales (auto simp: rb_write_rep rb_dump_rep)

subsection \<open>Properties\<close>

text \<open>
  C6: however the PTY output is cut into writes, no write into the ring panics, and a dump
  returns exactly the newest bytes of the whole output, as many as the ring holds.
\<close>

theorem ring_dump_newest:
  assumes "capacity < 2 ^ 63" and "length (concat ds) < 2 ^ 64"
  shows "bind_res (run_res rb_write (rb_new capacity) ds) rb_dump = Inr (last_n capacity (concat ds))"
  using rb.replay_law [OF rb_rep_new [OF assms(1)], of ds] assms(2) by (simp add: rb_new_def)

theorem ring_dump_newest_witness:
  "bind_res (run_res rb_write (rb_new 8) [[1, 2, 3, 4, 5, 6, 7, 8], [9, 10]]) rb_dump =
     Inr [3, 4, 5, 6, 7, 8, 9, 10]"
  using ring_dump_newest [of 8 "[[1, 2, 3, 4, 5, 6, 7, 8], [9, 10]]"] by (simp add: last_n_def)

end
