(* ===== verification/Shared_Ring.thy ===== *)
theory Shared_Ring
  imports Ring_Buffer
begin

section \<open>The shared-memory ring buffer (\<open>shared_ring.rs\<close>)\<close>

text \<open>
  The mapping is a byte list \<open>mem\<close> that the daemon and its clients share; a handle
  (\<open>SharedRingBuffer\<close>) holds what one process keeps about it. Every routine that touches the
  mapping takes the handle and the bytes. Raw-pointer accesses are unchecked in the source:
  an access that leaves the mapping is the fault \<open>Out_of_bounds\<close>, a spin loop that never
  ends is \<open>Diverges\<close>. This theory is about accesses that are not interleaved with others;
  \<open>Seqlock\<close> interleaves them.
\<close>

definition header_size :: nat where "header_size = 512"
definition shm_magic :: u32 where "shm_magic = 0x50545944"
definition shm_version :: u32 where "shm_version = 2"
definition shm_default_ring_size :: nat where "shm_default_ring_size = 1024 * 1024"

record shared_ring =
  sr_shm_name :: string
  sr_shm_fd :: fd
  sr_mmap_size :: nat
  sr_capacity :: nat
  sr_is_owner :: bool

text \<open>The fields of the header and the three cache-line slots, at their offsets.\<close>

definition sequence_off :: nat where "sequence_off = 128"
definition write_pos_off :: nat where "write_pos_off = 256"
definition total_written_off :: nat where "total_written_off = 384"

lemmas shm_layout = header_size_def sequence_off_def write_pos_off_def total_written_off_def

subsection \<open>Creating and opening a mapping\<close>

text \<open>
  The system calls a constructor makes, in order, and what the operating system answers:
  the result of \<open>shm_open\<close>, the page size, the result of \<open>ftruncate\<close>, the size reported by
  \<open>fstat\<close> (\<open>None\<close>: it failed) and the mapping of a given length (\<open>None\<close>: \<open>MAP_FAILED\<close>).
\<close>

datatype shm_call =
    Shm_unlink string
  | Shm_open_create string
  | Shm_open_existing string
  | Ftruncate fd nat
  | Fstat fd
  | Mmap fd nat
  | Munmap nat
  | Shm_close fd

record shm_os =
  so_open :: int
  so_page_size :: nat
  so_ftruncate :: int
  so_fstat :: "nat option"
  so_mmap :: "nat \<Rightarrow> bytes option"

datatype io_error = Invalid_input string | Invalid_data string | Unexpected_eof string | Not_found string | Os_error

definition c_string_ok :: "string \<Rightarrow> bool" where
  "c_string_ok s \<longleftrightarrow> CHR 0x00 \<notin> set s"

definition shm_init_header :: "bytes \<Rightarrow> nat \<Rightarrow> bytes" where
  "shm_init_header m capacity =
     (let m = store_u32 m 0 shm_magic;
          m = store_u32 m 4 shm_version;
          m = store_u64 m 8 (of_nat capacity);
          m = overwrite m 16 (replicate (128 - 16) 0);
          m = store_u64 m sequence_off 0;
          m = store_u64 m write_pos_off 0
      in store_u64 m total_written_off 0)"

definition shm_create ::
  "shm_os \<Rightarrow> string \<Rightarrow> nat \<Rightarrow> (io_error + shared_ring \<times> bytes) \<times> shm_call list" where
  "shm_create os name capacity =
     (if \<not> c_string_ok name then (Inl (Invalid_input ''Invalid shm name''), [])
      else
        let fd = so_open os;
            calls = [Shm_unlink name, Shm_open_create name] in
        if fd < 0 then (Inl Os_error, calls)
        else
          let required_size = header_size + capacity;
              mmap_size = (required_size + so_page_size os - 1) div so_page_size os * so_page_size os;
              calls = calls @ [Ftruncate fd mmap_size] in
          if so_ftruncate os \<noteq> 0 then (Inl Os_error, calls @ [Shm_close fd])
          else
            let calls = calls @ [Mmap fd mmap_size] in
            case so_mmap os mmap_size of
              None \<Rightarrow> (Inl Os_error, calls @ [Shm_close fd])
            | Some m \<Rightarrow>
                (Inr (\<lparr>sr_shm_name = name, sr_shm_fd = fd, sr_mmap_size = mmap_size,
                       sr_capacity = capacity, sr_is_owner = True\<rparr>,
                      shm_init_header m capacity), calls))"

definition shm_open ::
  "shm_os \<Rightarrow> string \<Rightarrow> (io_error + shared_ring \<times> bytes) \<times> shm_call list" where
  "shm_open os name =
     (if \<not> c_string_ok name then (Inl (Invalid_input ''Invalid shm name''), [])
      else
        let fd = so_open os; calls = [Shm_open_existing name] in
        if fd < 0 then (Inl Os_error, calls)
        else
          let calls = calls @ [Fstat fd] in
          case so_fstat os of
            None \<Rightarrow> (Inl Os_error, calls @ [Shm_close fd])
          | Some mmap_size \<Rightarrow>
              if mmap_size < header_size then
                (Inl (Invalid_data ''Shared memory too small''), calls @ [Shm_close fd])
              else
                let calls = calls @ [Mmap fd mmap_size] in
                case so_mmap os mmap_size of
                  None \<Rightarrow> (Inl Os_error, calls @ [Shm_close fd])
                | Some m \<Rightarrow>
                    if load_u32 m 0 \<noteq> shm_magic then
                      (Inl (Invalid_data ''Invalid magic number''),
                       calls @ [Munmap mmap_size, Shm_close fd])
                    else if load_u32 m 4 \<noteq> shm_version then
                      (Inl (Invalid_data ''Unsupported version''),
                       calls @ [Munmap mmap_size, Shm_close fd])
                    else
                      let capacity = load_u64 m 8 in
                      if of_nat mmap_size < of_nat header_size + capacity then
                        (Inl (Invalid_data ''Capacity mismatch''),
                         calls @ [Munmap mmap_size, Shm_close fd])
                      else
                        (Inr (\<lparr>sr_shm_name = name, sr_shm_fd = fd, sr_mmap_size = mmap_size,
                               sr_capacity = unat capacity, sr_is_owner = False\<rparr>, m), calls))"

text \<open>\<open>Drop\<close> unmaps and closes, and leaves the name; \<open>unlink\<close> removes the name.\<close>

definition shm_drop :: "shared_ring \<Rightarrow> shm_call list" where
  "shm_drop r = [Munmap (sr_mmap_size r), Shm_close (sr_shm_fd r)]"

definition shm_unlink :: "int \<Rightarrow> shared_ring \<Rightarrow> (io_error + unit) \<times> shm_call list" where
  "shm_unlink rc r =
     (if \<not> c_string_ok (sr_shm_name r) then (Inl (Invalid_input ''Invalid shm name''), [])
      else (if rc \<noteq> 0 then Inl Os_error else Inr (), [Shm_unlink (sr_shm_name r)]))"

subsection \<open>Writing\<close>

text \<open>
  \<open>write\<close> is the sequence of memory operations it performs, so that they can be run in one
  go (here) or interleaved with a reader (\<open>Seqlock\<close>). \<open>Copy_data\<close> is
  \<open>copy_nonoverlapping\<close> to an offset of the data area.
\<close>

datatype mem_op =
    Copy_data nat bytes
  | Store_u64 nat u64
  | Fetch_add_u64 nat u64

fun exec_op :: "bytes \<Rightarrow> mem_op \<Rightarrow> bytes res" where
  "exec_op mem (Copy_data off bs) =
     (if header_size + off + length bs \<le> length mem
      then Inr (overwrite mem (header_size + off) bs) else Inl Out_of_bounds)"
| "exec_op mem (Store_u64 off v) = Inr (store_u64 mem off v)"
| "exec_op mem (Fetch_add_u64 off v) = Inr (store_u64 mem off (load_u64 mem off + v))"

definition seq_begin_write :: mem_op where
  "seq_begin_write = Fetch_add_u64 sequence_off 1"

definition seq_end_write :: mem_op where
  "seq_end_write = Fetch_add_u64 sequence_off 1"

definition publish :: "u64 \<Rightarrow> u64 \<Rightarrow> mem_op list" where
  "publish write_pos total_written =
     [seq_begin_write, Store_u64 write_pos_off write_pos, Store_u64 total_written_off total_written,
      seq_end_write]"

definition shm_write_prog :: "shared_ring \<Rightarrow> bytes \<Rightarrow> bytes \<Rightarrow> mem_op list" where
  "shm_write_prog r mem data =
     (if data = [] then []
      else
        let len = length data;
            write_pos = load_u64 mem write_pos_off;
            total_written = load_u64 mem total_written_off in
        if sr_capacity r \<le> len then
          Copy_data 0 (drop (len - sr_capacity r) data) # publish 0 (total_written + of_nat len)
        else
          let first_chunk = unat (of_nat (sr_capacity r) - write_pos) in
          (if len \<le> first_chunk then [Copy_data (unat write_pos) data]
           else [Copy_data (unat write_pos) (take first_chunk data),
                 Copy_data 0 (drop first_chunk data)])
          @ publish (of_nat (unat (write_pos + of_nat len) mod sr_capacity r))
              (total_written + of_nat len))"

definition shm_write :: "shared_ring \<Rightarrow> bytes \<Rightarrow> bytes \<Rightarrow> bytes res" where
  "shm_write r mem data = run_res exec_op mem (shm_write_prog r mem data)"

definition shm_clear :: "bytes \<Rightarrow> bytes" where
  "shm_clear mem = store_u64 (store_u64 mem write_pos_off 0) total_written_off 0"

subsection \<open>Reading\<close>

text \<open>
  The retry loop of \<open>read_snapshot\<close> on a mapping nobody else changes: \<open>None\<close> means that
  the loop never returns.
\<close>

partial_function (option) read_snapshot :: "bytes \<Rightarrow> (u64 \<times> u64) option" where
  "read_snapshot mem =
     (let seq1 = load_u64 mem sequence_off in
      if and seq1 1 \<noteq> 0 then read_snapshot mem
      else
        let write_pos = load_u64 mem write_pos_off;
            total_written = load_u64 mem total_written_off;
            seq2 = load_u64 mem sequence_off in
        if seq1 = seq2 then Some (write_pos, total_written) else read_snapshot mem)"

text \<open>\<open>slice::from_raw_parts(data_ptr.add(off), n)\<close>.\<close>

definition data_slice :: "bytes \<Rightarrow> nat \<Rightarrow> nat \<Rightarrow> bytes res" where
  "data_slice mem off n =
     (if header_size + off + n \<le> length mem then Inr (peek mem (header_size + off) n)
      else Inl Out_of_bounds)"

definition snapshot_res :: "bytes \<Rightarrow> (u64 \<times> u64) res" where
  "snapshot_res mem = (case read_snapshot mem of None \<Rightarrow> Inl Diverges | Some s \<Rightarrow> Inr s)"

text \<open>\<open>dump\<close> after its snapshot, split off because the copy is a step of its own when a
  writer interferes.\<close>

definition dump_at :: "shared_ring \<Rightarrow> bytes \<Rightarrow> u64 \<Rightarrow> u64 \<Rightarrow> bytes res" where
  "dump_at r mem write_pos total_written =
     (if of_nat (sr_capacity r) \<le> write_pos then Inr []
      else
        let valid_len = (if of_nat (sr_capacity r) \<le> total_written then sr_capacity r
                         else unat total_written) in
        if valid_len = 0 then Inr []
        else if of_nat (sr_capacity r) \<le> total_written then
          bind_res (data_slice mem (unat write_pos) (sr_capacity r - unat write_pos)) (\<lambda>tail.
          bind_res (data_slice mem 0 (unat write_pos)) (\<lambda>head. Inr (tail @ head)))
        else data_slice mem 0 (unat write_pos))"

definition shm_dump :: "shared_ring \<Rightarrow> bytes \<Rightarrow> bytes res" where
  "shm_dump r mem =
     (if load_u32 mem 0 \<noteq> shm_magic then Inr []
      else bind_res (snapshot_res mem) (\<lambda>(write_pos, total_written).
             dump_at r mem write_pos total_written))"

definition shm_dump_with_reset :: "shared_ring \<Rightarrow> bytes \<Rightarrow> bytes res" where
  "shm_dump_with_reset r mem =
     bind_res (shm_dump r mem) (\<lambda>data. if data = [] then Inr data else Inr (decstr @ data))"

definition shm_total_written :: "bytes \<Rightarrow> u64" where
  "shm_total_written mem = load_u64 mem total_written_off"

definition shm_len :: "shared_ring \<Rightarrow> bytes \<Rightarrow> nat" where
  "shm_len r mem =
     (let total_written = load_u64 mem total_written_off in
      if of_nat (sr_capacity r) \<le> total_written then sr_capacity r else unat total_written)"

definition shm_is_empty :: "bytes \<Rightarrow> bool" where
  "shm_is_empty mem \<longleftrightarrow> load_u64 mem total_written_off = 0"

definition shm_read_since :: "shared_ring \<Rightarrow> bytes \<Rightarrow> u64 \<Rightarrow> (bytes \<times> u64) res" where
  "shm_read_since r mem last_total =
     bind_res (snapshot_res mem) (\<lambda>(write_pos, total).
       if total \<le> last_total then Inr ([], total)
       else
         let new_bytes = unat (total - last_total) in
         if sr_capacity r \<le> new_bytes then bind_res (shm_dump r mem) (\<lambda>d. Inr (d, total))
         else
           let wp = unat write_pos;
               start = (if new_bytes \<le> wp then wp - new_bytes
                        else sr_capacity r - (new_bytes - wp)) in
           if start + new_bytes \<le> sr_capacity r then
             bind_res (data_slice mem start new_bytes) (\<lambda>d. Inr (d, total))
           else if sr_capacity r < start then Inl Out_of_bounds
           else
             let first = sr_capacity r - start in
             bind_res (data_slice mem start first) (\<lambda>tail.
             bind_res (data_slice mem 0 (new_bytes - first)) (\<lambda>head. Inr (tail @ head, total))))"

subsection \<open>The snapshot loop\<close>

lemma odd_unat_u64: "odd (unat (x :: u64)) \<longleftrightarrow> odd x"
  by (simp add: bit_unsigned_iff flip: bit_0)

lemma and_one_u64: "and (x :: u64) 1 \<noteq> 0 \<longleftrightarrow> odd (unat x)"
  by (simp add: and_one_eq mod_2_eq_odd odd_unat_u64)

lemma read_snapshot_even:
  "even (unat (load_u64 mem sequence_off)) \<Longrightarrow>
   read_snapshot mem = Some (load_u64 mem write_pos_off, load_u64 mem total_written_off)"
  by (subst read_snapshot.simps) (simp add: Let_def and_one_u64)

lemma read_snapshot_Some:
  assumes "read_snapshot mem = Some s"
  shows "even (unat (load_u64 mem sequence_off))"
proof (rule read_snapshot.raw_induct [where P = "\<lambda>mem s. even (unat (load_u64 mem sequence_off))", OF _ assms])
  fix f mem s
  assume IH: "\<And>mem s. f mem = Some s \<Longrightarrow> even (unat (load_u64 mem sequence_off))"
    and eq: "(let seq1 = load_u64 mem sequence_off in
      if and seq1 1 \<noteq> 0 then f mem
      else let write_pos = load_u64 mem write_pos_off;
               total_written = load_u64 mem total_written_off;
               seq2 = load_u64 mem sequence_off
           in if seq1 = seq2 then Some (write_pos, total_written) else f mem) = Some s"
  show "even (unat (load_u64 mem sequence_off))"
    using eq IH [of mem s] by (auto simp: Let_def and_one_u64 split: if_splits)
qed

lemma read_snapshot_iff:
  "read_snapshot mem =
     (if even (unat (load_u64 mem sequence_off))
      then Some (load_u64 mem write_pos_off, load_u64 mem total_written_off) else None)"
  using read_snapshot_even read_snapshot_Some by (cases "read_snapshot mem") fastforce+

lemma snapshot_res_iff:
  "snapshot_res mem =
     (if even (unat (load_u64 mem sequence_off))
      then Inr (load_u64 mem write_pos_off, load_u64 mem total_written_off) else Inl Diverges)"
  by (simp add: snapshot_res_def read_snapshot_iff)

end
