(* ===== verification/Shared_Ring_Props.thy ===== *)
theory Shared_Ring_Props
  imports Shared_Ring
begin

section \<open>Correctness of the shared-memory ring\<close>

text \<open>
  The shared ring keeps the contract of a byte ring; incremental reads lose and repeat
  nothing while the reader keeps up; the constructors release what they acquired on every
  error path; an interrupted write leaves a mapping whose readers never return.
\<close>

subsection \<open>Publishing a position\<close>

definition sr_data :: "shared_ring \<Rightarrow> bytes \<Rightarrow> bytes" where
  "sr_data r mem = peek mem header_size (sr_capacity r)"

definition published :: "bytes \<Rightarrow> u64 \<Rightarrow> u64 \<Rightarrow> bytes" where
  "published mem wp t =
     (let s = load_u64 mem sequence_off;
          m = store_u64 mem sequence_off (s + 1);
          m = store_u64 (store_u64 m write_pos_off wp) total_written_off t
      in store_u64 m sequence_off (s + 2))"

lemma published_load:
  assumes "header_size \<le> length mem"
  shows "length (published mem wp t) = length mem"
    and "load_u64 (published mem wp t) sequence_off = load_u64 mem sequence_off + 2"
    and "load_u64 (published mem wp t) write_pos_off = wp"
    and "load_u64 (published mem wp t) total_written_off = t"
    and "take 16 (published mem wp t) = take 16 mem"
    and "peek (published mem wp t) header_size n = peek mem header_size n"
  using assms by (simp_all add: published_def Let_def shm_layout mem_frame)

lemma run_publish:
  assumes "header_size \<le> length mem"
  shows "run_res exec_op mem (publish wp t) = Inr (published mem wp t)"
  using assms
  by (simp add: publish_def seq_begin_write_def seq_end_write_def published_def Let_def
      shm_layout mem_frame add.assoc)

lemma run_copy:
  assumes "off + length bs \<le> sr_capacity r" and "header_size + sr_capacity r \<le> length mem"
  shows "exec_op mem (Copy_data off bs) = Inr (overwrite mem (header_size + off) bs)"
    and "sr_data r (overwrite mem (header_size + off) bs) = overwrite (sr_data r mem) off bs"
    and "length (overwrite mem (header_size + off) bs) = length mem"
    and "take 16 (overwrite mem (header_size + off) bs) = take 16 mem"
    and "load_u64 (overwrite mem (header_size + off) bs) sequence_off = load_u64 mem sequence_off"
  using assms by (simp_all add: sr_data_def peek_overwrite_inside mem_frame shm_layout)

subsection \<open>What a mapping says about the bytes written\<close>

text \<open>The header as \<open>open\<close> checks it; it sits in the first 16 bytes.\<close>

definition sr_header :: "shared_ring \<Rightarrow> bytes \<Rightarrow> bool" where
  "sr_header r mem \<longleftrightarrow>
     load_u32 mem 0 = shm_magic \<and> load_u32 mem 4 = shm_version \<and>
     load_u64 mem 8 = of_nat (sr_capacity r)"

lemma sr_header_cong: "take 16 mem' = take 16 mem \<Longrightarrow> sr_header r mem' = sr_header r mem"
  using load_take_cong [of 16 mem' mem] by (simp add: sr_header_def)

fun sr_rep :: "shared_ring \<times> bytes \<Rightarrow> bytes \<Rightarrow> bool" where
  "sr_rep (r, mem) h \<longleftrightarrow>
     header_size + sr_capacity r \<le> length mem \<and> sr_capacity r < 2 ^ 63 \<and> 0 < sr_capacity r \<and>
     sr_header r mem \<and> even (unat (load_u64 mem sequence_off)) \<and>
     length h < 2 ^ 64 \<and> load_u64 mem total_written_off = of_nat (length h) \<and>
     circ_rep (sr_data r mem) (unat (load_u64 mem write_pos_off)) h"

fun sr_cap :: "shared_ring \<times> bytes \<Rightarrow> nat" where
  "sr_cap (r, mem) = sr_capacity r"

fun sr_put :: "shared_ring \<times> bytes \<Rightarrow> bytes \<Rightarrow> (shared_ring \<times> bytes) res" where
  "sr_put (r, mem) d = bind_res (shm_write r mem d) (\<lambda>mem'. Inr (r, mem'))"

fun sr_get :: "shared_ring \<times> bytes \<Rightarrow> bytes res" where
  "sr_get (r, mem) = shm_dump r mem"

fun sr_since :: "shared_ring \<times> bytes \<Rightarrow> u64 \<Rightarrow> (bytes \<times> u64) res" where
  "sr_since (r, mem) t = shm_read_since r mem t"

lemma even_add_2_u64: "even (unat (s + 2 :: u64)) \<longleftrightarrow> even (unat s)"
  by (metis dvd_add_left_iff dvd_refl odd_unat_u64)

lemma length_sr_data:
  "header_size + sr_capacity r \<le> length mem \<Longrightarrow> length (sr_data r mem) = sr_capacity r"
  by (simp add: sr_data_def)

lemma sr_rep_published:
  assumes "sr_rep (r, mem) h" and "length h' < 2 ^ 64"
    and "length mem' = length mem" "take 16 mem' = take 16 mem"
    and "load_u64 mem' sequence_off = load_u64 mem sequence_off"
    and "w < sr_capacity r" "circ_rep (sr_data r mem') w h'"
  shows "sr_rep (r, published mem' (of_nat w) (of_nat (length h'))) h'"
proof -
  have "header_size \<le> length mem'" using assms(1,3) by simp
  note pub = published_load [OF this]
  have "unat (of_nat w :: u64) = w"
    using assms(1,6) by (intro unat_of_nat_u64) simp
  then show ?thesis
    using assms by (simp add: pub sr_data_def even_add_2_u64 sr_header_cong [OF pub(5)] sr_header_cong [OF assms(4)])
qed

text \<open>A write smaller than the ring is a circular write followed by the publication. The
  positions are those of the mapping \<open>src\<close> that the writer loaded them from, at the start.\<close>

lemma run_prog_small:
  assumes mem: "header_size + sr_capacity r \<le> length mem" and c: "sr_capacity r < 2 ^ 63"
    and w: "unat (load_u64 src write_pos_off) < sr_capacity r"
    and d: "d \<noteq> []" "length d < sr_capacity r"
  shows "\<exists>mem'. run_res exec_op mem (shm_write_prog r src d) =
           Inr (published mem'
                 (of_nat ((unat (load_u64 src write_pos_off) + length d) mod sr_capacity r))
                 (load_u64 src total_written_off + of_nat (length d))) \<and>
         sr_data r mem' = circ_put (sr_data r mem) (unat (load_u64 src write_pos_off)) d \<and>
         length mem' = length mem \<and> take 16 mem' = take 16 mem \<and>
         load_u64 mem' sequence_off = load_u64 mem sequence_off"
proof -
  let ?c = "sr_capacity r" and ?wp = "load_u64 src write_pos_off"
  let ?w = "unat ?wp" and ?k = "sr_capacity r - unat (load_u64 src write_pos_off)"
  note len = length_sr_data [OF mem]
  have fc: "unat (of_nat ?c - ?wp) = ?k"
    using w c by (simp add: unat_sub word_le_nat_alt unat_of_nat_u64)
  have "?wp + of_nat (length d) = (of_nat (?w + length d) :: u64)" by simp
  then have nwp: "unat (?wp + of_nat (length d)) = ?w + length d"
    using w c d unat_of_nat_u64 [of "?w + length d"] by simp
  have hdr: "header_size \<le> length mem" using mem by simp
  show ?thesis
  proof (cases "length d \<le> ?k")
    case True
    then have "?w + length d \<le> ?c" using w by simp
    note copy = run_copy [OF this mem]
    have prog: "shm_write_prog r src d = Copy_data ?w d #
        publish (of_nat ((?w + length d) mod ?c)) (load_u64 src total_written_off + of_nat (length d))"
      using True d by (simp add: shm_write_prog_def Let_def fc nwp)
    show ?thesis
      using True copy d hdr len
      by (intro exI [of _ "overwrite mem (header_size + ?w) d"])
         (simp add: prog run_publish circ_put_def Let_def del: exec_op.simps)
  next
    case False
    let ?m1 = "overwrite mem (header_size + ?w) (take ?k d)"
    have "?w + length (take ?k d) \<le> ?c" using w False by simp
    note copy1 = run_copy [OF this mem]
    have mem1: "header_size + ?c \<le> length ?m1" using mem copy1(3) by simp
    have "0 + length (drop ?k d) \<le> ?c" using d by simp
    note copy2 = run_copy [OF this mem1]
    have prog: "shm_write_prog r src d =
        Copy_data ?w (take ?k d) # Copy_data 0 (drop ?k d) #
        publish (of_nat ((?w + length d) mod ?c)) (load_u64 src total_written_off + of_nat (length d))"
      using False d by (simp add: shm_write_prog_def Let_def fc nwp)
    show ?thesis
      using False copy1 copy2 d hdr len
      by (intro exI [of _ "overwrite ?m1 header_size (drop ?k d)"])
         (simp add: prog run_publish circ_put_def Let_def del: exec_op.simps)
  qed
qed

lemmas shm_write_small = run_prog_small [where src = mem and mem = mem for mem, folded shm_write_def]

lemma shm_write_rep:
  assumes rep: "sr_rep (r, mem) h" and bound: "length h + length d < 2 ^ 64"
  shows "\<exists>mem'. shm_write r mem d = Inr mem' \<and> sr_rep (r, mem') (h @ d)"
proof (cases "d = []")
  case True
  with rep show ?thesis by (simp add: shm_write_def shm_write_prog_def)
next
  case False
  let ?c = "sr_capacity r" and ?wp = "load_u64 mem write_pos_off"
  from rep have mem: "header_size + ?c \<le> length mem" and c: "?c < 2 ^ 63" "0 < ?c"
    and tot: "load_u64 mem total_written_off = of_nat (length h)"
    and circ: "circ_rep (sr_data r mem) (unat ?wp) h"
    by auto
  note len = length_sr_data [OF mem]
  have w: "unat ?wp < ?c" using circ c len by (auto simp: circ_rep_def)
  have tot': "load_u64 mem total_written_off + of_nat (length d) = of_nat (length (h @ d))"
    by (simp add: tot)
  have bound': "length (h @ d) < 2 ^ 64" using bound by simp
  show ?thesis
  proof (cases "?c \<le> length d")
    case True
    let ?d = "drop (length d - ?c) d"
    have ld: "0 + length ?d \<le> ?c" using True by simp
    note copy = run_copy [OF ld mem]
    have "circ_rep (last_n ?c d) 0 (h @ d)" using True by (rule circ_rep_full_put)
    then have "circ_rep (sr_data r (overwrite mem header_size ?d)) 0 (h @ d)"
      using copy(2) True len by (simp add: last_n_def)
    then have "sr_rep (r, published (overwrite mem header_size ?d) (of_nat 0)
        (of_nat (length (h @ d)))) (h @ d)"
      using copy(3-5) c by (intro sr_rep_published [OF rep bound']) (simp_all add: shm_layout)
    moreover have "shm_write r mem d =
        Inr (published (overwrite mem header_size ?d) 0 (of_nat (length (h @ d))))"
      using False True copy(1,3) mem tot'
      by (simp add: shm_write_def shm_write_prog_def Let_def run_publish shm_layout)
    ultimately show ?thesis by simp
  next
    case small: False
    let ?m = "circ_put (sr_data r mem) (unat ?wp) d"
    define w' where "w' = (unat ?wp + length d) mod ?c"
    have "length d < ?c" using small by simp
    from shm_write_small [OF mem c(1) w False this]
    obtain mem' where m: "shm_write r mem d =
          Inr (published mem' (of_nat w') (of_nat (length (h @ d))))"
        "sr_data r mem' = ?m" "length mem' = length mem" "take 16 mem' = take 16 mem"
        "load_u64 mem' sequence_off = load_u64 mem sequence_off"
      by (auto simp: w'_def tot' simp del: of_nat_add)
    have "circ_rep ?m w' (h @ d)"
      using circ_rep_put [OF circ, of d] small len by (simp add: w'_def)
    then have "sr_rep (r, published mem' (of_nat w') (of_nat (length (h @ d)))) (h @ d)"
      using m c by (intro sr_rep_published [OF rep bound']) (simp_all add: w'_def)
    with m(1) show ?thesis by blast
  qed
qed

lemma data_slice_sr_data:
  "off + n \<le> sr_capacity r \<Longrightarrow> header_size + sr_capacity r \<le> length mem \<Longrightarrow>
   data_slice mem off n = Inr (peek (sr_data r mem) off n)"
  by (simp add: data_slice_def sr_data_def peek_peek)

lemma sr_rep_snapshot:
  "sr_rep (r, mem) h \<Longrightarrow>
   snapshot_res mem = Inr (load_u64 mem write_pos_off, of_nat (length h))"
  by (simp add: snapshot_res_iff)

lemma sr_rep_write_pos:
  "sr_rep (r, mem) h \<Longrightarrow> unat (load_u64 mem write_pos_off) < sr_capacity r"
  using length_sr_data [of r mem] by (auto simp: circ_rep_def)

lemma of_nat_le_word: "unat (w :: u64) < n \<Longrightarrow> n < 2 ^ 64 \<Longrightarrow> \<not> of_nat n \<le> w"
  by (simp add: word_le_nat_alt unat_of_nat_u64)

lemma shm_dump_rep:
  assumes rep: "sr_rep (r, mem) h"
  shows "shm_dump r mem = Inr (last_n (sr_capacity r) h)"
proof -
  let ?c = "sr_capacity r" and ?wp = "load_u64 mem write_pos_off"
  from rep have mem: "header_size + ?c \<le> length mem" and c: "?c < 2 ^ 64"
    and h: "length h < 2 ^ 64" and circ: "circ_rep (sr_data r mem) (unat ?wp) h"
    by auto
  note len = length_sr_data [OF mem]
  note w = sr_rep_write_pos [OF rep]
  have full: "of_nat ?c \<le> (of_nat (length h) :: u64) \<longleftrightarrow> ?c \<le> length h"
    using c h by (rule of_nat_le_of_nat_u64)
  have "dump_at r mem ?wp (of_nat (length h)) = Inr (last_n ?c h)"
  proof (cases "?c \<le> length h")
    case True
    have "peek (sr_data r mem) (unat ?wp) (?c - unat ?wp) @ take (unat ?wp) (sr_data r mem) =
        last_n ?c h"
      using circ_rep_full [OF circ] True len w by simp
    with True w show ?thesis
      by (simp add: dump_at_def full of_nat_le_word [OF w c] data_slice_sr_data [OF _ mem])
  next
    case False
    with circ_rep_partial [OF circ] len w h show ?thesis
      by (auto simp: dump_at_def full of_nat_le_word [OF w c] data_slice_sr_data [OF _ mem]
          unat_of_nat_u64)
  qed
  with rep show ?thesis
    by (simp add: shm_dump_def snapshot_res_iff sr_header_def)
qed

lemma shm_read_since_rep:
  assumes rep: "sr_rep (r, mem) (h @ n)"
  shows "shm_read_since r mem (of_nat (length h)) =
         Inr (last_n (sr_capacity r) n, of_nat (length (h @ n)))"
proof -
  let ?c = "sr_capacity r" and ?w = "unat (load_u64 mem write_pos_off)"
  let ?d = "sr_data r mem" and ?l = "length n"
  from rep have mem: "header_size + ?c \<le> length mem" and c: "?c < 2 ^ 64"
    and h: "length (h @ n) < 2 ^ 64" and circ: "circ_rep ?d ?w (h @ n)"
    by auto
  note len = length_sr_data [OF mem]
  note w = sr_rep_write_pos [OF rep]
  have le: "of_nat (length (h @ n)) \<le> (of_nat (length h) :: u64) \<longleftrightarrow> n = []"
    using h by (subst of_nat_le_of_nat_u64) auto
  have diff: "unat (of_nat (length (h @ n)) - of_nat (length h) :: u64) = ?l"
    using h by (simp add: unat_of_nat_u64)
  note slice = data_slice_sr_data [OF _ mem]
  show ?thesis
  proof (cases "n = [] \<or> ?c \<le> ?l")
    case True
    then show ?thesis
      using shm_dump_rep [OF rep] le diff
      by (auto simp: shm_read_since_def sr_rep_snapshot [OF rep] last_n_append Let_def
          simp del: of_nat_add length_append)
  next
    case False
    have new: "n = last_n (?l - ?w) (drop ?w ?d) @ last_n ?l (take ?w ?d)"
      using circ_rep_newest [OF circ, of ?l] False len by (simp add: last_n_append)
    have l: "?l < ?c" "\<not> ?c \<le> ?l" "n \<noteq> []" using False by auto
    have eq: "shm_read_since r mem (of_nat (length h)) = Inr (n, of_nat (length (h @ n)))"
    proof (cases "?l \<le> ?w")
      case True
      have "n = peek ?d (?w - ?l) ?l"
        using new True w len by (simp add: last_n_def peek_def take_drop)
      then show ?thesis
        using True l w
        by (simp add: shm_read_since_def sr_rep_snapshot [OF rep] Let_def le diff slice
            del: of_nat_add length_append)
    next
      case before: False
      then have n: "n = drop (?c - (?l - ?w)) ?d @ take ?w ?d"
        using new w l len by (simp add: last_n_def)
      have start: "?c - (?c - (?l - ?w)) = ?l - ?w" "?l - (?l - ?w) = ?w"
        using before w l by auto
      have edge: "?c - (?l - ?w) + ?l \<le> ?c \<longleftrightarrow> ?w = 0"
        using before w l by auto
      have tail: "peek ?d (?c - (?l - ?w)) (?l - ?w) = drop (?c - (?l - ?w)) ?d"
        using before l len by (intro peek_to_end) simp
      show ?thesis
        using before l w n start edge tail
        by (auto simp: shm_read_since_def sr_rep_snapshot [OF rep] Let_def le diff slice
            simp del: of_nat_add length_append)
    qed
    from eq False show ?thesis by simp
  qed
qed

subsection \<open>The contract of an incrementally readable ring\<close>

text \<open>
  A reader that remembers the total it saw last polls for what is new. \<open>poll_run\<close> alternates
  one write with one poll and collects what the polls return.
\<close>

fun poll_run ::
  "('r \<Rightarrow> bytes \<Rightarrow> 'r res) \<Rightarrow> ('r \<Rightarrow> u64 \<Rightarrow> (bytes \<times> u64) res) \<Rightarrow> 'r \<Rightarrow> u64 \<Rightarrow>
   bytes list \<Rightarrow> bytes list res" where
  "poll_run put since r seen [] = Inr []"
| "poll_run put since r seen (d # ds) =
     bind_res (put r d) (\<lambda>r'.
     bind_res (since r' seen) (\<lambda>(new, now).
     bind_res (poll_run put since r' now ds) (\<lambda>news. Inr (new # news))))"

locale incremental_ring = byte_ring +
  fixes since :: "'a \<Rightarrow> u64 \<Rightarrow> (bytes \<times> u64) res"
  assumes since_law: "rep r (h @ n) \<Longrightarrow>
      since r (of_nat (length h)) = Inr (last_n (cap r) n, of_nat (length (h @ n)))"
begin

lemma poll_law:
  assumes "rep r h" and "length h + length (concat ds) < 2 ^ 64"
  shows "poll_run put since r (of_nat (length h)) ds = Inr (map (last_n (cap r)) ds)"
  using assms
proof (induction ds arbitrary: r h)
  case Nil
  then show ?case by simp
next
  case (Cons d ds)
  then obtain r' where r': "put r d = Inr r'" "rep r' (h @ d)" "cap r' = cap r"
    using put_law [of r h d] by auto
  with Cons.prems have "poll_run put since r' (of_nat (length (h @ d))) ds =
      Inr (map (last_n (cap r')) ds)"
    by (intro Cons.IH) auto
  with r' since_law [OF r'(2)] show ?case by simp
qed

end

lemma sr_put_law:
  assumes "sr_rep x h" and "length h + length d < 2 ^ 64"
  shows "\<exists>x'. sr_put x d = Inr x' \<and> sr_rep x' (h @ d) \<and> sr_cap x' = sr_cap x"
proof (cases x)
  case (Pair r mem)
  with assms shm_write_rep [of r mem h d] show ?thesis by (auto simp del: sr_rep.simps)
qed

lemma sr_get_law: "sr_rep x h \<Longrightarrow> sr_get x = Inr (last_n (sr_cap x) h)"
  by (cases x) (simp add: shm_dump_rep del: sr_rep.simps)

lemma sr_since_law:
  "sr_rep x (h @ n) \<Longrightarrow>
   sr_since x (of_nat (length h)) = Inr (last_n (sr_cap x) n, of_nat (length (h @ n)))"
  by (cases x) (simp add: shm_read_since_rep del: sr_rep.simps of_nat_add length_append)

interpretation sr: incremental_ring sr_rep sr_cap sr_put sr_get sr_since
  by unfold_locales (rule sr_put_law sr_get_law sr_since_law; assumption)+

subsection \<open>Constructors\<close>

lemma sr_rep_init_header:
  assumes "header_size + capacity \<le> length m" and "0 < capacity" "capacity < 2 ^ 63"
    and "sr_capacity r = capacity"
  shows "sr_rep (r, shm_init_header m capacity) []"
  using assms
  by (auto simp: shm_init_header_def Let_def sr_header_def shm_layout mem_frame circ_rep_def
      sr_data_def)

lemma shm_create_ok:
  assumes "shm_create os name capacity = (Inr (r, m), calls)"
    and "0 < capacity" "capacity < 2 ^ 63" "0 < so_page_size os"
    and "\<And>n m. so_mmap os n = Some m \<Longrightarrow> length m = n"
  shows "sr_rep (r, m) [] \<and> sr_capacity r = capacity \<and> length m = sr_mmap_size r \<and>
         sr_mmap_size r mod so_page_size os = 0"
proof -
  define p where "p = so_page_size os"
  define n where "n = (header_size + capacity + p - 1) div p * p"
  from assms obtain m0 where m0: "so_mmap os n = Some m0"
    and r: "sr_capacity r = capacity" "sr_mmap_size r = n" and m: "m = shm_init_header m0 capacity"
    by (auto simp: shm_create_def Let_def n_def p_def split: if_splits option.splits)
  have p: "0 < p" using assms(4) by (simp add: p_def)
  have "header_size + capacity \<le> n"
    using div_mult_mod_eq [of "header_size + capacity + p - 1" p]
      mod_less_divisor [OF p, of "header_size + capacity + p - 1"] p
    unfolding n_def by linarith
  moreover have len: "length m0 = n" using assms(5) m0 by blast
  ultimately have rep: "sr_rep (r, m) []"
    unfolding m using sr_rep_init_header assms(2,3) r(1) by blast
  have "length m = length m0"
    using \<open>header_size + capacity \<le> n\<close> len
    by (simp add: m shm_init_header_def Let_def shm_layout)
  with rep len r show ?thesis by (simp add: n_def p_def del: sr_rep.simps)
qed

text \<open>Opening what a writer published gives a handle on the same ring.\<close>

lemma shm_open_rep:
  assumes rep: "sr_rep (r, m) h" and "length m < 2 ^ 64"
    and "c_string_ok name" "0 \<le> so_open os"
    and "so_fstat os = Some (length m)" "so_mmap os (length m) = Some m"
  shows "\<exists>r' calls. shm_open os name = (Inr (r', m), calls) \<and> sr_rep (r', m) h \<and>
           sr_capacity r' = sr_capacity r"
proof -
  let ?c = "sr_capacity r"
  from rep have hdr: "load_u32 m 0 = shm_magic" "load_u32 m 4 = shm_version"
      "load_u64 m 8 = of_nat ?c"
    and mem: "header_size + ?c \<le> length m" and c: "?c < 2 ^ 63"
    by (auto simp: sr_header_def)
  have sum: "of_nat header_size + of_nat ?c = (of_nat (header_size + ?c) :: u64)" by simp
  have ok: "\<not> of_nat (length m) < (of_nat header_size + of_nat ?c :: u64)"
    unfolding sum using assms(2) mem by (subst of_nat_less_of_nat_u64) auto
  let ?r = "\<lparr>sr_shm_name = name, sr_shm_fd = so_open os, sr_mmap_size = length m,
             sr_capacity = ?c, sr_is_owner = False\<rparr>"
  have "\<exists>calls. shm_open os name = (Inr (?r, m), calls)"
    using assms(3-6) hdr mem c ok
    by (simp add: shm_open_def Let_def unat_of_nat_u64)
  moreover have "sr_rep (?r, m) h"
    using rep by (simp add: sr_header_def sr_data_def)
  ultimately show ?thesis by force
qed

subsection \<open>Resources of the constructors\<close>

text \<open>
  Descriptors and mappings a run of system calls leaves behind: each successful open or map
  counts one, each close or unmap takes one away.
\<close>

fun call_fds :: "shm_os \<Rightarrow> shm_call \<Rightarrow> int" where
  "call_fds os (Shm_open_create name) = (if so_open os < 0 then 0 else 1)"
| "call_fds os (Shm_open_existing name) = (if so_open os < 0 then 0 else 1)"
| "call_fds os (Shm_close fd) = -1"
| "call_fds os _ = 0"

fun call_maps :: "shm_os \<Rightarrow> shm_call \<Rightarrow> int" where
  "call_maps os (Mmap fd n) = (if so_mmap os n = None then 0 else 1)"
| "call_maps os (Munmap n) = -1"
| "call_maps os _ = 0"

definition held_fds :: "shm_os \<Rightarrow> shm_call list \<Rightarrow> int" where
  "held_fds os calls = sum_list (map (call_fds os) calls)"

definition held_maps :: "shm_os \<Rightarrow> shm_call list \<Rightarrow> int" where
  "held_maps os calls = sum_list (map (call_maps os) calls)"

lemmas held_defs = held_fds_def held_maps_def

lemma shm_create_held:
  "held_fds os (snd (shm_create os name capacity)) =
     (case fst (shm_create os name capacity) of Inl e \<Rightarrow> 0 | Inr r \<Rightarrow> 1)"
  "held_maps os (snd (shm_create os name capacity)) =
     (case fst (shm_create os name capacity) of Inl e \<Rightarrow> 0 | Inr r \<Rightarrow> 1)"
  by (auto simp: shm_create_def Let_def held_defs split: option.splits)

lemma shm_open_held:
  "held_fds os (snd (shm_open os name)) =
     (case fst (shm_open os name) of Inl e \<Rightarrow> 0 | Inr r \<Rightarrow> 1)"
  "held_maps os (snd (shm_open os name)) =
     (case fst (shm_open os name) of Inl e \<Rightarrow> 0 | Inr r \<Rightarrow> 1)"
  by (auto simp: shm_open_def Let_def held_defs split: option.splits)

lemma shm_drop_held: "held_fds os (shm_drop r) = -1" "held_maps os (shm_drop r) = -1"
  by (simp_all add: shm_drop_def held_defs)

subsection \<open>Arbitrary and interrupted contents\<close>

text \<open>
  \<open>dump\<close> checks the position it read, so no content of the mapping, however corrupt, makes it
  read outside the mapping.
\<close>

lemma dump_at_in_bounds:
  assumes "header_size + sr_capacity r \<le> length mem" "sr_capacity r < 2 ^ 64"
  shows "dump_at r mem wp t \<noteq> Inl Out_of_bounds"
proof (cases "of_nat (sr_capacity r) \<le> wp")
  case True
  then show ?thesis by (simp add: dump_at_def)
next
  case False
  then have "unat wp < sr_capacity r"
    using assms(2) by (simp add: word_le_nat_alt unat_of_nat_u64)
  then show ?thesis
    using False by (simp add: dump_at_def Let_def data_slice_sr_data [OF _ assms(1)])
qed

lemma shm_dump_in_bounds:
  assumes "header_size + sr_capacity r \<le> length mem" "sr_capacity r < 2 ^ 64"
  shows "shm_dump r mem \<noteq> Inl Out_of_bounds"
  using dump_at_in_bounds [OF assms] by (simp add: shm_dump_def snapshot_res_iff)

text \<open>Every complete write adds two to the sequence number, so its parity never changes.\<close>

definition is_copy :: "mem_op \<Rightarrow> bool" where
  "is_copy p \<longleftrightarrow> (\<exists>off bs. p = Copy_data off bs)"

lemma shm_write_prog_shape:
  "shm_write_prog r mem d = [] \<or>
   (\<exists>copies wp t. (\<forall>p \<in> set copies. is_copy p) \<and> shm_write_prog r mem d = copies @ publish wp t)"
proof (cases "d = []")
  case True
  then show ?thesis by (simp add: shm_write_prog_def)
next
  case False
  let ?w = "load_u64 mem write_pos_off" and ?n = "length d"
  let ?k = "unat (of_nat (sr_capacity r) - ?w)"
  let ?t = "load_u64 mem total_written_off + of_nat ?n"
  define copies where "copies =
     (if sr_capacity r \<le> ?n then [Copy_data 0 (drop (?n - sr_capacity r) d)]
      else if ?n \<le> ?k then [Copy_data (unat ?w) d]
      else [Copy_data (unat ?w) (take ?k d), Copy_data 0 (drop ?k d)])"
  define wp where "wp = (if sr_capacity r \<le> ?n then 0
      else of_nat (unat (?w + of_nat ?n) mod sr_capacity r) :: u64)"
  have "shm_write_prog r mem d = copies @ publish wp ?t"
    using False by (simp add: shm_write_prog_def Let_def copies_def wp_def)
  moreover have "\<forall>p \<in> set copies. is_copy p"
    by (simp add: copies_def is_copy_def)
  ultimately show ?thesis by blast
qed

lemma run_copies:
  assumes "\<forall>p \<in> set ops. is_copy p" and "run_res exec_op mem ops = Inr m"
    and "header_size \<le> length mem"
  shows "length m = length mem \<and> load_u64 m sequence_off = load_u64 mem sequence_off \<and>
         take 128 m = take 128 mem"
  using assms
proof (induction ops arbitrary: mem)
  case Nil
  then show ?case by simp
next
  case (Cons op ops)
  then obtain off bs where op: "op = Copy_data off bs" by (auto simp: is_copy_def)
  with Cons.prems have fits: "header_size + off + length bs \<le> length mem"
    by (auto split: if_splits)
  let ?m = "overwrite mem (header_size + off) bs"
  have "length ?m = length mem" "load_u64 ?m sequence_off = load_u64 mem sequence_off"
      "take 128 ?m = take 128 mem"
    using fits by (simp_all add: mem_frame shm_layout)
  with Cons op fits show ?case by fastforce
qed

lemma published_magic: "header_size \<le> length mem \<Longrightarrow> load_u32 (published mem wp t) 0 = load_u32 mem 0"
  by (simp add: published_def Let_def mem_frame shm_layout)

lemma shm_write_seq:
  assumes "shm_write r mem d = Inr m" and "header_size \<le> length mem"
  shows "length m = length mem \<and> load_u32 m 0 = load_u32 mem 0 \<and>
         (even (unat (load_u64 m sequence_off)) \<longleftrightarrow> even (unat (load_u64 mem sequence_off)))"
proof (cases "shm_write_prog r mem d = []")
  case True
  with assms show ?thesis by (simp add: shm_write_def)
next
  case False
  then obtain copies wp t where prog: "shm_write_prog r mem d = copies @ publish wp t"
    and copies: "\<forall>p \<in> set copies. is_copy p"
    using shm_write_prog_shape [of r mem d] by blast
  from assms(1) obtain m' where m': "run_res exec_op mem copies = Inr m'"
    and m: "run_res exec_op m' (publish wp t) = Inr m"
    by (auto simp: shm_write_def prog run_res_append bind_res_Inr_iff)
  note c = run_copies [OF copies m' assms(2)]
  then have hdr: "header_size \<le> length m'" using assms(2) by simp
  from m have "m = published m' wp t" by (simp add: run_publish [OF hdr])
  moreover have "load_u32 m' 0 = load_u32 mem 0"
    using c load_take_cong(1) [of 128 m' mem 0] by simp
  ultimately show ?thesis using c hdr
    by (simp add: published_load [OF hdr] published_magic [OF hdr] even_add_2_u64)
qed

text \<open>
  A writer that stops between \<open>seq_begin_write\<close> and \<open>seq_end_write\<close> (a client killed in the
  middle of a write) leaves an odd sequence number. From then on every reader of the mapping
  spins forever, however many complete writes follow.
\<close>

lemma odd_seq_diverges:
  assumes "odd (unat (load_u64 mem sequence_off))"
  shows "load_u32 mem 0 = shm_magic \<Longrightarrow> shm_dump r mem = Inl Diverges"
    and "shm_read_since r mem t = Inl Diverges"
  using assms by (simp_all add: shm_dump_def shm_read_since_def snapshot_res_iff)

lemma run_writes_seq:
  assumes "run_res (shm_write r) mem ds = Inr m" and "header_size \<le> length mem"
  shows "length m = length mem \<and> load_u32 m 0 = load_u32 mem 0 \<and>
         (even (unat (load_u64 m sequence_off)) \<longleftrightarrow> even (unat (load_u64 mem sequence_off)))"
  using assms
proof (induction ds arbitrary: mem)
  case Nil
  then show ?case by simp
next
  case (Cons d ds)
  then obtain m1 where "shm_write r mem d = Inr m1" "run_res (shm_write r) m1 ds = Inr m"
    by (auto simp: bind_res_Inr_iff)
  with Cons shm_write_seq [of r mem d m1] show ?case by auto
qed

lemma run_prefix_frame:
  assumes "header_size \<le> length mem" "run_res exec_op mem (take k (publish wp t)) = Inr m"
  shows "length m = length mem \<and> load_u32 m 0 = load_u32 mem 0"
proof -
  have "k = 0 \<or> k = 1 \<or> k = 2 \<or> k = 3 \<or> 4 \<le> k" by linarith
  with assms show ?thesis
    by (auto simp: publish_def seq_begin_write_def seq_end_write_def shm_layout mem_frame
        numeral_2_eq_2 numeral_3_eq_3)
qed

lemma interrupted_write_odd:
  assumes "even (unat (load_u64 mem sequence_off))" and "header_size \<le> length mem"
    and "0 < k" "k < 4" and "run_res exec_op mem (take k (publish wp t)) = Inr m"
  shows "odd (unat (load_u64 m sequence_off))"
proof -
  let ?s = "load_u64 mem sequence_off"
  have odd1: "odd (unat (?s + 1))"
    using assms(1) by (metis even_plus_one_iff odd_unat_u64)
  consider "k = 1" | "k = 2" | "k = 3" using assms(3,4) by linarith
  then have "load_u64 m sequence_off = ?s + 1"
  proof cases
    case 1
    with assms(2,5) show ?thesis
      by (auto simp: publish_def seq_begin_write_def shm_layout)
  next
    case 2
    with assms(2,5) show ?thesis
      by (auto simp: publish_def seq_begin_write_def shm_layout mem_frame numeral_2_eq_2)
  next
    case 3
    with assms(2,5) show ?thesis
      by (auto simp: publish_def seq_begin_write_def shm_layout mem_frame numeral_3_eq_3)
  qed
  with odd1 show ?thesis by simp
qed

subsection \<open>Properties\<close>

text \<open>A ring that has just been created over a mapping of exactly its size, for the witnesses.\<close>

definition demo_ring :: shared_ring where
  "demo_ring = \<lparr>sr_shm_name = ''/ptyd-demo'', sr_shm_fd = 3, sr_mmap_size = 516,
     sr_capacity = 4, sr_is_owner = True\<rparr>"

definition demo_mem :: bytes where
  "demo_mem = shm_init_header (replicate 516 0) 4"

lemma demo_rep: "sr_rep (demo_ring, demo_mem) []"
  unfolding demo_mem_def by (rule sr_rep_init_header) (simp_all add: shm_layout demo_ring_def)

definition demo_os :: "nat \<Rightarrow> bytes \<Rightarrow> shm_os" where
  "demo_os page m = \<lparr>so_open = 3, so_page_size = page, so_ftruncate = 0,
     so_fstat = Some (length m), so_mmap = (\<lambda>n. Some (if n = length m then m else replicate n 0))\<rparr>"

text \<open>
  C3: the shared-memory ring and the in-process ring it replaced are interchangeable: from
  rings of the same capacity that have received the same bytes, the same writes lead to the
  same dump, and neither faults.
\<close>

theorem shared_ring_equals_ring_buffer:
  assumes "rb_rep rb h" and "sr_rep (r, mem) h" and "rb_capacity rb = sr_capacity r"
    and "length h + length (concat ds) < 2 ^ 64"
  shows "bind_res (run_res sr_put (r, mem) ds) sr_get = bind_res (run_res rb_write rb ds) rb_dump \<and>
         bind_res (run_res rb_write rb ds) rb_dump = Inr (last_n (rb_capacity rb) (h @ concat ds))"
  using rb.replay_law [OF assms(1,4)] sr.replay_law [OF assms(2,4)] assms(3) by simp

theorem shared_ring_equals_ring_buffer_witness:
  "bind_res (run_res sr_put (demo_ring, demo_mem) [[1, 2, 3], [4, 5]]) sr_get = Inr [2, 3, 4, 5] \<and>
   bind_res (run_res rb_write (rb_new 4) [[1, 2, 3], [4, 5]]) rb_dump = Inr [2, 3, 4, 5]"
proof -
  have "rb_rep (rb_new 4) []" by (rule rb_rep_new) simp
  moreover have "rb_capacity (rb_new 4) = 4" "sr_capacity demo_ring = 4"
    by (simp_all add: rb_new_def demo_ring_def)
  ultimately show ?thesis
    using shared_ring_equals_ring_buffer [OF _ demo_rep, of "rb_new 4" "[[1, 2, 3], [4, 5]]"]
    by (simp add: last_n_def del: run_res.simps)
qed

text \<open>
  C2: a client that opens the mapping the daemon created sees exactly the newest bytes the
  daemon wrote: creation, any sequence of writes and \<open>open\<close> fit together.
\<close>

theorem open_sees_created_writes:
  assumes "shm_create os name capacity = (Inr (r, m0), calls)"
    and "0 < capacity" "capacity < 2 ^ 63" "0 < so_page_size os"
    and "\<And>n m. so_mmap os n = Some m \<Longrightarrow> length m = n"
    and "length (concat ds) < 2 ^ 64" and "run_res (shm_write r) m0 ds = Inr m"
    and "length m < 2 ^ 64" "c_string_ok name'" "0 \<le> so_open os'"
    and "so_fstat os' = Some (length m)" "so_mmap os' (length m) = Some m"
  shows "\<exists>r' calls'. shm_open os' name' = (Inr (r', m), calls') \<and>
           shm_dump r' m = Inr (last_n capacity (concat ds))"
proof -
  from shm_create_ok [OF assms(1-5)] have rep: "sr_rep (r, m0) []" and cap: "sr_capacity r = capacity"
    by auto
  have run: "run_res sr_put (r, x) ds = bind_res (run_res (shm_write r) x ds) (\<lambda>m. Inr (r, m))" for x
  proof (induction ds arbitrary: x)
    case Nil
    then show ?case by simp
  next
    case (Cons d ds)
    then show ?case by (cases "shm_write r x d") auto
  qed
  from sr.puts_law [OF rep, of ds] assms(6) have rep': "sr_rep (r, m) (concat ds)"
    by (auto simp: run assms(7) simp del: sr_rep.simps)
  from shm_open_rep [OF rep' assms(8-12)] obtain r' calls' where
      "shm_open os' name' = (Inr (r', m), calls')" "sr_rep (r', m) (concat ds)"
      "sr_capacity r' = sr_capacity r"
    by blast
  with shm_dump_rep [of r' m] cap show ?thesis by auto
qed

theorem open_sees_created_writes_witness:
  "\<exists>m r calls. run_res (shm_write demo_ring) demo_mem [[1, 2, 3], [4, 5]] = Inr m \<and>
     shm_open (demo_os 516 m) ''/ptyd-demo'' = (Inr (r, m), calls) \<and> shm_dump r m = Inr [2, 3, 4, 5]"
proof -
  have create: "shm_create (demo_os 516 (replicate 516 0)) ''/ptyd-demo'' 4 =
      (Inr (demo_ring, demo_mem),
       [Shm_unlink ''/ptyd-demo'', Shm_open_create ''/ptyd-demo'', Ftruncate 3 516, Mmap 3 516])"
    by (simp add: shm_create_def demo_os_def c_string_ok_def header_size_def demo_ring_def demo_mem_def
        Let_def del: replicate.simps)
  obtain m where run: "run_res (shm_write demo_ring) demo_mem [[1, 2, 3], [4, 5]] = Inr m"
    using sr.puts_law [OF demo_rep, of "[[1, 2, 3], [4, 5]]"]
    by (auto simp: bind_res_Inr_iff)
  have "length m = 516"
    using run_writes_seq [OF run] demo_rep
    by (simp add: demo_mem_def shm_init_header_def Let_def shm_layout)
  then have "\<exists>r calls. shm_open (demo_os 516 m) ''/ptyd-demo'' = (Inr (r, m), calls) \<and>
      shm_dump r m = Inr (last_n 4 (concat [[1, 2, 3], [4, 5]]))"
    by (intro open_sees_created_writes [OF create _ _ _ _ _ run])
      (auto simp add: demo_os_def c_string_ok_def split: if_splits)
  with run show ?thesis by (auto simp: last_n_def simp del: run_res.simps)
qed

text \<open>
  C4: a reader that polls \<open>read_since\<close> after every write, passing back the total of its last
  poll, receives every write exactly once and in order, as long as no single write exceeds
  the capacity; of a larger write it receives the newest bytes.
\<close>

theorem poll_exactly_once:
  assumes "sr_rep (r, mem) h" and "length h + length (concat ds) < 2 ^ 64"
  shows "poll_run sr_put sr_since (r, mem) (of_nat (length h)) ds =
           Inr (map (last_n (sr_capacity r)) ds)"
  using sr.poll_law [OF assms] by simp

theorem poll_exactly_once_witness:
  "poll_run sr_put sr_since (demo_ring, demo_mem) 0 [[1, 2, 3], [4, 5], [], [6, 7, 8, 9, 10]] =
     Inr [[1, 2, 3], [4, 5], [], [7, 8, 9, 10]]"
  using poll_exactly_once [OF demo_rep, of "[[1, 2, 3], [4, 5], [], [6, 7, 8, 9, 10]]"]
  by (simp add: demo_ring_def last_n_def)

text \<open>
  C11: \<open>create\<close> and \<open>open\<close> hold one descriptor and one mapping when they succeed and none when
  they fail, whichever of their system calls fails; dropping the handle releases both.
\<close>

theorem constructors_release_on_error:
  "held_fds os (snd (shm_create os name capacity)) =
     (case fst (shm_create os name capacity) of Inl e \<Rightarrow> 0 | Inr r \<Rightarrow> 1) \<and>
   held_maps os (snd (shm_create os name capacity)) =
     (case fst (shm_create os name capacity) of Inl e \<Rightarrow> 0 | Inr r \<Rightarrow> 1) \<and>
   held_fds os (snd (shm_open os name)) =
     (case fst (shm_open os name) of Inl e \<Rightarrow> 0 | Inr r \<Rightarrow> 1) \<and>
   held_maps os (snd (shm_open os name)) =
     (case fst (shm_open os name) of Inl e \<Rightarrow> 0 | Inr r \<Rightarrow> 1) \<and>
   held_fds os (shm_drop ring) = -1 \<and> held_maps os (shm_drop ring) = -1"
  by (simp add: shm_create_held shm_open_held shm_drop_held)



text \<open>
  C10: a writer that stops inside a publication (a client killed in the middle of \<open>write\<close>) wedges
  the ring for good: whatever complete writes follow, \<open>dump\<close> and \<open>read_since\<close> spin forever.
\<close>

theorem interrupted_write_wedges_readers:
  assumes "sr_rep (r, mem) h" and "0 < k" "k < 4"
    and "run_res exec_op mem (take k (publish wp t)) = Inr m"
    and "run_res (shm_write r) m ds = Inr m'"
  shows "shm_read_since r m' seen = Inl Diverges \<and> shm_dump r m' = Inl Diverges"
proof -
  have mem: "header_size \<le> length mem" "even (unat (load_u64 mem sequence_off))"
      "load_u32 mem 0 = shm_magic"
    using assms(1) by (auto simp: sr_header_def)
  have odd: "odd (unat (load_u64 m sequence_off))"
    using mem assms(2-4) by (intro interrupted_write_odd)
  have "length m = length mem" "load_u32 m 0 = load_u32 mem 0"
    using run_prefix_frame [OF mem(1) assms(4)] by auto
  with mem have "header_size \<le> length m" "load_u32 m 0 = shm_magic" by auto
  with run_writes_seq [OF assms(5)] odd show ?thesis
    by (auto simp: odd_seq_diverges)
qed

theorem interrupted_write_wedges_readers_witness:
  "shm_dump demo_ring 
     (store_u64 demo_mem sequence_off (load_u64 demo_mem sequence_off + 1)) = Inl Diverges"
proof -
  have "run_res exec_op demo_mem (take 1 (publish 3 3)) =
      Inr (store_u64 demo_mem sequence_off (load_u64 demo_mem sequence_off + 1))"
    by (simp add: publish_def seq_begin_write_def)
  from interrupted_write_wedges_readers [OF demo_rep _ _ this, of "[]"]
  show ?thesis by simp
qed

end
