(* ===== verification/Seqlock.thy ===== *)
theory Seqlock
  imports Shared_Ring_Props
begin

section \<open>The SeqLock under interleaving (\<open>shared_ring.rs\<close>)\<close>

text \<open>
  One writer and one reader of the same mapping, interleaved at every memory operation. The
  writer runs the operations of \<open>shm_write_prog\<close> one at a time; the reader runs the loads
  of \<open>read_snapshot\<close> one at a time, with its spin and its retry, and then copies the data as
  \<open>dump\<close> does. Memory is sequentially consistent: the fences of the source are there to get
  this order from weaker hardware, whose reorderings are not modelled.
\<close>

text \<open>
  The reader's program counter, with the values it holds: \<open>R_loop\<close> is the head of the retry
  loop, \<open>R_seq\<close> holds an even \<open>seq1\<close>, \<open>R_wp\<close> and \<open>R_total\<close> the loads after it, \<open>R_done\<close> the
  snapshot that passed the check and \<open>R_dumped\<close> the bytes copied for it.
\<close>

datatype reader =
    R_loop
  | R_seq u64
  | R_wp u64 u64
  | R_total u64 u64 u64
  | R_done u64 u64 u64
  | R_dumped "bytes res"

text \<open>
  \<open>sl_todo\<close> are the operations the current write has left. \<open>sl_hist\<close> is a ghost: the pairs
  \<open>(write_pos, total_written)\<close> published so far, the initial one first; \<open>sl_sent\<close>, the
  bytes handed to \<open>write\<close> so far, is another.
\<close>

record sl_state =
  sl_mem :: bytes
  sl_todo :: "mem_op list"
  sl_hist :: "(u64 \<times> u64) list"
  sl_reader :: reader
  sl_sent :: bytes

definition positions :: "bytes \<Rightarrow> u64 \<times> u64" where
  "positions mem = (load_u64 mem write_pos_off, load_u64 mem total_written_off)"

definition sl_init :: "bytes \<Rightarrow> sl_state" where
  "sl_init mem = \<lparr>sl_mem = mem, sl_todo = [], sl_hist = [positions mem],
     sl_reader = R_loop, sl_sent = []\<rparr>"

text \<open>The last operation of a write is the one that publishes.\<close>

definition publish_hist :: "mem_op list \<Rightarrow> bytes \<Rightarrow> (u64 \<times> u64) list \<Rightarrow> (u64 \<times> u64) list" where
  "publish_hist rest mem hist = (if rest = [] then hist @ [positions mem] else hist)"

fun reader_step :: "shared_ring \<Rightarrow> bytes \<Rightarrow> reader \<Rightarrow> reader" where
  "reader_step r mem R_loop =
     (let seq1 = load_u64 mem sequence_off in if and seq1 1 \<noteq> 0 then R_loop else R_seq seq1)"
| "reader_step r mem (R_seq seq1) = R_wp seq1 (load_u64 mem write_pos_off)"
| "reader_step r mem (R_wp seq1 wp) = R_total seq1 wp (load_u64 mem total_written_off)"
| "reader_step r mem (R_total seq1 wp t) =
     (let seq2 = load_u64 mem sequence_off in if seq1 = seq2 then R_done seq1 wp t else R_loop)"
| "reader_step r mem (R_done seq1 wp t) = R_dumped (dump_at r mem wp t)"
| "reader_step r mem (R_dumped d) = R_loop"

inductive sl_step :: "shared_ring \<Rightarrow> sl_state \<Rightarrow> sl_state \<Rightarrow> bool" for r where
  write_start: "sl_todo s = [] \<Longrightarrow> sl_step r s (s\<lparr>sl_todo := shm_write_prog r (sl_mem s) data,
                    sl_sent := sl_sent s @ data\<rparr>)"
| write_op: "sl_todo s = op # rest \<Longrightarrow> exec_op (sl_mem s) op = Inr mem' \<Longrightarrow>
     sl_step r s (s\<lparr>sl_mem := mem', sl_todo := rest,
                    sl_hist := publish_hist rest mem' (sl_hist s)\<rparr>)"
| read_op: "sl_step r s (s\<lparr>sl_reader := reader_step r (sl_mem s) (sl_reader s)\<rparr>)"

inductive sl_reach :: "shared_ring \<Rightarrow> bytes \<Rightarrow> sl_state \<Rightarrow> bool" for r mem where
  start: "sl_reach r mem (sl_init mem)"
| step: "sl_reach r mem s \<Longrightarrow> sl_step r s s' \<Longrightarrow> sl_reach r mem s'"

inductive_cases sl_stepE: "sl_step r s s'"

subsection \<open>The invariant\<close>

text \<open>
  Where the writer is: before the publication (only copies precede it), or inside it. The
  sequence number counts two per publication, so its value tells the two apart.
\<close>

definition writer_inv :: "sl_state \<Rightarrow> bool" where
  "writer_inv s \<longleftrightarrow>
     (let n = unat (load_u64 (sl_mem s) sequence_off); k = 2 * (length (sl_hist s) - 1);
          ops = sl_todo s in
      (n = k \<and> positions (sl_mem s) = last (sl_hist s) \<and>
        (ops = [] \<or> (\<exists>copies wp t. (\<forall>p \<in> set copies. is_copy p) \<and> ops = copies @ publish wp t)))
      \<or> (n = Suc k \<and> (\<exists>wp t. ops \<in> {tl (publish wp t), tl (tl (publish wp t)),
                                    tl (tl (tl (publish wp t)))})))"

text \<open>
  The reader's snapshot is current as long as the sequence number is still the one it read.
\<close>

definition holds_at :: "sl_state \<Rightarrow> u64 \<Rightarrow> (u64 \<times> u64 \<Rightarrow> bool) \<Rightarrow> bool" where
  "holds_at s q P \<longleftrightarrow>
     even (unat q) \<and> unat q \<le> unat (load_u64 (sl_mem s) sequence_off) \<and>
     (q = load_u64 (sl_mem s) sequence_off \<longrightarrow> P (last (sl_hist s)))"

fun reader_inv :: "sl_state \<Rightarrow> reader \<Rightarrow> bool" where
  "reader_inv s (R_seq q) \<longleftrightarrow> holds_at s q (\<lambda>p. True)"
| "reader_inv s (R_wp q wp) \<longleftrightarrow> holds_at s q (\<lambda>p. fst p = wp)"
| "reader_inv s (R_total q wp t) \<longleftrightarrow> holds_at s q (\<lambda>p. p = (wp, t))"
| "reader_inv s (R_done q wp t) \<longleftrightarrow>
     even (unat q) \<and> unat q div 2 < length (sl_hist s) \<and> sl_hist s ! (unat q div 2) = (wp, t)"
| "reader_inv s _ \<longleftrightarrow> True"

definition sl_inv :: "sl_state \<Rightarrow> bool" where
  "sl_inv s \<longleftrightarrow> header_size \<le> length (sl_mem s) \<and> sl_hist s \<noteq> [] \<and> writer_inv s \<and>
     reader_inv s (sl_reader s)"

lemma copy_positions:
  assumes "is_copy p" "exec_op mem p = Inr mem'"
  shows "positions mem' = positions mem \<and> length mem' = length mem \<and>
         load_u64 mem' sequence_off = load_u64 mem sequence_off"
  using assms by (auto simp: is_copy_def positions_def mem_frame shm_layout split: if_splits)

text \<open>What one operation of the writer does to the sequence number.\<close>

lemma publish_simps [simp]:
  "publish wp t \<noteq> []" "hd (publish wp t) = seq_begin_write"
  "tl (publish wp t) = [Store_u64 write_pos_off wp, Store_u64 total_written_off t, seq_end_write]"
  by (simp_all add: publish_def)

lemma seq_ops:
  assumes "header_size \<le> length mem"
  shows "exec_op mem seq_begin_write = Inr mem' \<Longrightarrow>
           length mem' = length mem \<and> load_u64 mem' sequence_off = load_u64 mem sequence_off + 1 \<and>
           positions mem' = positions mem"
    and "exec_op mem (Store_u64 write_pos_off v) = Inr mem' \<Longrightarrow>
           length mem' = length mem \<and> load_u64 mem' sequence_off = load_u64 mem sequence_off"
    and "exec_op mem (Store_u64 total_written_off v) = Inr mem' \<Longrightarrow>
           length mem' = length mem \<and> load_u64 mem' sequence_off = load_u64 mem sequence_off"
  using assms by (auto simp: seq_begin_write_def positions_def mem_frame shm_layout)

lemma seq_end_is_begin: "seq_end_write = seq_begin_write"
  by (simp add: seq_end_write_def seq_begin_write_def)

lemma unat_succ_u64: "unat (x :: u64) + 1 < 2 ^ 64 \<Longrightarrow> unat (x + 1) = Suc (unat x)"
  using unat_of_nat_u64 [of "unat x + 1"] by (simp add: add.commute)

text \<open>One operation of the writer: the positions stay or the sequence number moves on.\<close>

lemma writer_op_inv:
  assumes inv: "writer_inv s" "header_size \<le> length (sl_mem s)" "sl_hist s \<noteq> []"
    and op: "sl_todo s = op # rest" "exec_op (sl_mem s) op = Inr mem'"
    and bound: "2 * length (sl_hist s) < 2 ^ 64"
    and s': "s' = s\<lparr>sl_mem := mem', sl_todo := rest, sl_hist := publish_hist rest mem' (sl_hist s)\<rparr>"
  shows "writer_inv s' \<and> length mem' = length (sl_mem s) \<and>
         (load_u64 mem' sequence_off = load_u64 (sl_mem s) sequence_off \<and> sl_hist s' = sl_hist s \<or>
          unat (load_u64 mem' sequence_off) = Suc (unat (load_u64 (sl_mem s) sequence_off)))"
proof -
  let ?mem = "sl_mem s" and ?h = "sl_hist s"
  define n where "n = unat (load_u64 ?mem sequence_off)"
  define k where "k = 2 * (length ?h - 1)"
  have kb: "k + 2 < 2 ^ 64" using bound inv(3) by (cases ?h) (simp_all add: k_def)
  have succ: "n \<le> Suc k \<Longrightarrow> unat (load_u64 ?mem sequence_off + 1) = Suc n"
    using kb unat_succ_u64 [of "load_u64 ?mem sequence_off"] by (simp add: n_def)
  note ops = seq_ops [OF inv(2)]
  from inv(1) consider
      (at_copy) copies wp t where "n = k" "positions ?mem = last ?h" "is_copy op"
        "\<forall>p \<in> set copies. is_copy p" "rest = copies @ publish wp t"
    | (at_begin) wp t where "n = k" "positions ?mem = last ?h" "op = seq_begin_write"
        "rest = tl (publish wp t)"
    | (at_wp) wp t where "n = Suc k" "op = Store_u64 write_pos_off wp" "rest = tl (tl (publish wp t))"
    | (at_tot) wp t where "n = Suc k" "op = Store_u64 total_written_off t"
        "rest = tl (tl (tl (publish wp t)))"
    | (at_fin) "n = Suc k" "op = seq_end_write" "rest = []"
  proof -
    from inv(1) op(1) have "(n = k \<and> positions ?mem = last ?h \<and>
        (\<exists>copies wp t. (\<forall>p \<in> set copies. is_copy p) \<and> op # rest = copies @ publish wp t)) \<or>
      (n = Suc k \<and> (\<exists>wp t. op # rest \<in> {tl (publish wp t), tl (tl (publish wp t)),
                                    tl (tl (tl (publish wp t)))}))"
      by (auto simp: writer_inv_def Let_def n_def k_def simp del: publish_simps)
    then show thesis
    proof (elim disjE conjE exE)
      fix copies wp t
      assume n: "n = k" "positions ?mem = last ?h" and c: "\<forall>p \<in> set copies. is_copy p"
        and ops: "op # rest = copies @ publish wp t"
      show thesis
      proof (cases copies)
        case Nil
        with ops n at_begin [of wp t] show thesis by (simp add: publish_def)
      next
        case (Cons c cs)
        with ops n c at_copy [of cs wp t] show thesis by simp
      qed
    next
      fix wp' t
      assume n: "n = Suc k" and ops: "op # rest \<in> {tl (publish wp' t), tl (tl (publish wp' t)),
          tl (tl (tl (publish wp' t)))}"
      then show thesis
        using at_wp [of wp' t] at_tot [of t wp'] at_fin by auto
    qed
  qed
  then show ?thesis
  proof cases
    case at_copy
    note c = copy_positions [OF at_copy(3) op(2)]
    with at_copy s' show ?thesis
      by (auto simp: writer_inv_def Let_def publish_hist_def n_def k_def)
  next
    case at_begin
    with ops(1) op(2) s' succ show ?thesis
      by (auto simp: writer_inv_def Let_def publish_hist_def n_def k_def)
  next
    case at_wp
    with ops(2) op(2) s' show ?thesis
      by (fastforce simp: writer_inv_def Let_def publish_hist_def n_def k_def)
  next
    case at_tot
    with ops(3) op(2) s' show ?thesis
      by (fastforce simp: writer_inv_def Let_def publish_hist_def n_def k_def)
  next
    case at_fin
    have "Suc (Suc (2 * (length ?h - Suc 0))) = 2 * length ?h" using inv(3) by (cases ?h) simp_all
    with at_fin ops(1) op(2) s' succ kb show ?thesis
      by (auto simp: writer_inv_def Let_def publish_hist_def n_def k_def seq_end_is_begin)
  qed
qed

text \<open>Writer steps keep what the reader holds; reader steps build it up.\<close>

lemma reader_inv_writer:
  assumes "reader_inv s rd"
    and hist: "\<exists>ps. sl_hist s' = sl_hist s @ ps"
    and seq: "load_u64 (sl_mem s') sequence_off = load_u64 (sl_mem s) sequence_off \<and>
                sl_hist s' = sl_hist s \<or>
              unat (load_u64 (sl_mem s') sequence_off) = Suc (unat (load_u64 (sl_mem s) sequence_off))"
  shows "reader_inv s' rd"
proof -
  have "holds_at s q P \<Longrightarrow> holds_at s' q P" for q P
    using seq by (auto simp: holds_at_def)
  with assms(1) hist show ?thesis
    by (cases rd) (auto simp: nth_append)
qed

lemma reader_step_inv:
  assumes inv: "sl_inv s"
  shows "reader_inv s (reader_step r (sl_mem s) (sl_reader s))"
proof -
  let ?q = "load_u64 (sl_mem s) sequence_off"
  have cur: "even (unat ?q) \<Longrightarrow>
      positions (sl_mem s) = last (sl_hist s) \<and> unat ?q = 2 * (length (sl_hist s) - 1)"
    using inv by (auto simp: sl_inv_def writer_inv_def Let_def)
  have rd: "reader_inv s (sl_reader s)" and ne: "sl_hist s \<noteq> []"
    using inv by (simp_all add: sl_inv_def)
  show ?thesis
  proof (cases "sl_reader s")
    case R_loop
    then show ?thesis by (auto simp: Let_def and_one_u64 holds_at_def)
  next
    case (R_seq q)
    with rd cur show ?thesis by (auto simp: holds_at_def positions_def prod_eq_iff)
  next
    case (R_wp q wp)
    with rd cur show ?thesis by (auto simp: holds_at_def positions_def prod_eq_iff)
  next
    case (R_total q wp t)
    with rd cur ne show ?thesis by (auto simp: holds_at_def Let_def last_conv_nth)
  qed (use rd in auto)
qed

lemma sl_step_hist: "sl_step r s s' \<Longrightarrow> \<exists>ps. sl_hist s' = sl_hist s @ ps"
  by (erule sl_stepE) (auto simp: publish_hist_def)

lemma writer_inv_before:
  assumes "unat (load_u64 (sl_mem s) sequence_off) = 2 * (length (sl_hist s) - 1)"
    and "positions (sl_mem s) = last (sl_hist s)"
    and "sl_todo s = [] \<or>
         (\<exists>copies wp t. (\<forall>p \<in> set copies. is_copy p) \<and> sl_todo s = copies @ publish wp t)"
  shows "writer_inv s"
  unfolding writer_inv_def Let_def using assms by blast

lemma sl_step_inv:
  assumes "sl_step r s s'" "sl_inv s" "2 * length (sl_hist s) < 2 ^ 64"
  shows "sl_inv s'"
  using assms(1)
proof cases
  case (write_start data)
  let ?n = "unat (load_u64 (sl_mem s) sequence_off)"
  from assms(2) write_start(2) have "?n = 2 * (length (sl_hist s) - 1)"
      "positions (sl_mem s) = last (sl_hist s)"
    by (auto simp: sl_inv_def writer_inv_def Let_def seq_end_write_def)
  then have "writer_inv s'"
    using write_start(1) shm_write_prog_shape [of r "sl_mem s" data]
    by (intro writer_inv_before) simp_all
  moreover have "reader_inv s' (sl_reader s)"
    using assms(2) write_start(1) by - (rule reader_inv_writer [of s], simp_all add: sl_inv_def)
  ultimately show ?thesis
    using assms(2) write_start by (simp add: sl_inv_def)
next
  case (write_op op rest mem')
  have w: "writer_inv s' \<and> length mem' = length (sl_mem s) \<and>
      (load_u64 mem' sequence_off = load_u64 (sl_mem s) sequence_off \<and> sl_hist s' = sl_hist s \<or>
       unat (load_u64 mem' sequence_off) = Suc (unat (load_u64 (sl_mem s) sequence_off)))"
    using assms(2,3) write_op by (intro writer_op_inv) (auto simp: sl_inv_def)
  moreover have "reader_inv s' (sl_reader s)"
    using assms(2) w write_op sl_step_hist [OF assms(1)]
    by - (rule reader_inv_writer [of s], auto simp: sl_inv_def)
  ultimately show ?thesis
    using assms(2) write_op by (auto simp: sl_inv_def publish_hist_def)
next
  case read_op
  have "reader_inv s' (sl_reader s')"
    using reader_step_inv [OF assms(2), of r] read_op
    by - (rule reader_inv_writer [of s], auto)
  then show ?thesis
    using assms(2) read_op by (simp add: sl_inv_def writer_inv_def Let_def)
qed

lemma sl_reach_inv:
  assumes "sl_reach r mem s" and "header_size \<le> length mem" and "load_u64 mem sequence_off = 0"
    and "2 * length (sl_hist s) < 2 ^ 64"
  shows "sl_inv s"
  using assms
proof (induction rule: sl_reach.induct)
  case start
  then show ?case
    by (simp add: sl_inv_def sl_init_def writer_inv_def Let_def)
next
  case (step s s')
  from sl_step_hist [OF step.hyps(2)] step.prems(3) have "2 * length (sl_hist s) < 2 ^ 64"
    by auto
  with step show ?case by (auto intro: sl_step_inv)
qed

subsection \<open>Runs\<close>

text \<open>A write that nobody interrupts, and a snapshot that no write overlaps, as one run each.\<close>

lemma sl_reach_ops:
  assumes "sl_reach r mem s" "sl_todo s = ops" "ops \<noteq> []" "run_res exec_op (sl_mem s) ops = Inr m"
  shows "sl_reach r mem (s\<lparr>sl_mem := m, sl_todo := [], sl_hist := sl_hist s @ [positions m]\<rparr>)"
  using assms
proof (induction ops arbitrary: s)
  case Nil
  then show ?case by simp
next
  case (Cons op ops)
  then obtain m1 where m1: "exec_op (sl_mem s) op = Inr m1" "run_res exec_op m1 ops = Inr m"
    by (auto simp: bind_res_Inr_iff)
  let ?s = "s\<lparr>sl_mem := m1, sl_todo := ops, sl_hist := publish_hist ops m1 (sl_hist s)\<rparr>"
  have reach: "sl_reach r mem ?s"
    using Cons.prems(1) write_op [OF Cons.prems(2) m1(1)] by (rule sl_reach.step)
  show ?case
  proof (cases "ops = []")
    case True
    with reach m1(2) show ?thesis by (simp add: publish_hist_def)
  next
    case False
    with Cons.IH [OF reach] m1(2) show ?thesis by (simp add: publish_hist_def)
  qed
qed

lemma sl_reach_write:
  assumes "sl_reach r mem s" "sl_todo s = []" "shm_write r (sl_mem s) d = Inr m"
    and "shm_write_prog r (sl_mem s) d \<noteq> []"
  shows "sl_reach r mem (s\<lparr>sl_sent := sl_sent s @ d, sl_mem := m, sl_todo := [],
           sl_hist := sl_hist s @ [positions m]\<rparr>)"
proof -
  have "sl_reach r mem (s\<lparr>sl_todo := shm_write_prog r (sl_mem s) d, sl_sent := sl_sent s @ d\<rparr>)"
    using assms(1) write_start [OF assms(2)] by (rule sl_reach.step)
  from sl_reach_ops [OF this, of "shm_write_prog r (sl_mem s) d"] show ?thesis
    using assms(2-4) by (simp add: shm_write_def)
qed

lemma sl_reach_read:
  "sl_reach r mem s \<Longrightarrow> sl_reach r mem (s\<lparr>sl_reader := reader_step r (sl_mem s) (sl_reader s)\<rparr>)"
  by (rule sl_reach.step [OF _ read_op])

lemma sl_reach_snapshot:
  assumes "sl_reach r mem s" "sl_reader s = R_loop" "even (unat (load_u64 (sl_mem s) sequence_off))"
  shows "sl_reach r mem (s\<lparr>sl_reader := R_done (load_u64 (sl_mem s) sequence_off)
           (load_u64 (sl_mem s) write_pos_off) (load_u64 (sl_mem s) total_written_off)\<rparr>)"
  using assms(2,3) sl_reach_read [OF sl_reach_read [OF sl_reach_read [OF sl_reach_read [OF assms(1)]]]]
  by (simp add: Let_def and_one_u64)

subsection \<open>Properties\<close>

text \<open>
  C1: a snapshot that \<open>read_snapshot\<close> accepts is consistent: the write position and the total
  it returns were published together by one write, however the loads interleave with the
  writer's stores, as long as the 64-bit sequence number has not wrapped.
\<close>

theorem snapshot_consistent:
  assumes "sl_reach r mem s" and "header_size \<le> length mem" and "load_u64 mem sequence_off = 0"
    and "2 * length (sl_hist s) < 2 ^ 64" and "sl_reader s = R_done q wp t"
  shows "unat q div 2 < length (sl_hist s) \<and> sl_hist s ! (unat q div 2) = (wp, t)"
  using sl_reach_inv [OF assms(1-4)] assms(5) by (simp add: sl_inv_def)

theorem snapshot_consistent_witness:
  "sl_hist (sl_init (replicate 512 0)) ! (unat (0 :: u64) div 2) = (0, 0)"
proof -
  let ?m = "replicate 512 0 :: bytes" and ?r = "\<lparr>sr_shm_name = ''/x'', sr_shm_fd = 3,
      sr_mmap_size = 512, sr_capacity = 0, sr_is_owner = True\<rparr>"
  let ?s = "(sl_init ?m)\<lparr>sl_reader := R_done 0 0 0\<rparr>"
  have "sl_reach ?r ?m ?s"
    using sl_reach_snapshot [OF sl_reach.start [of ?r ?m]]
    by (simp add: sl_init_def load_u64_zeros shm_layout)
  from snapshot_consistent [OF this, of 0 0 0] show ?thesis
    by (simp add: sl_init_def load_u64_zeros shm_layout)
qed

text \<open>
  While no write is in progress a reader at the head of its retry loop gets its snapshot
  within four loads, and it is the pair published last.
\<close>

theorem snapshot_wait_free_when_idle:
  assumes "sl_reach r mem s" and "header_size \<le> length mem" and "load_u64 mem sequence_off = 0"
    and "2 * length (sl_hist s) < 2 ^ 64" and "sl_todo s = []"
  shows "(reader_step r (sl_mem s) ^^ 4) R_loop =
           R_done (load_u64 (sl_mem s) sequence_off) (fst (last (sl_hist s))) (snd (last (sl_hist s)))"
proof -
  have "even (unat (load_u64 (sl_mem s) sequence_off)) \<and> positions (sl_mem s) = last (sl_hist s)"
    using sl_reach_inv [OF assms(1-4)] assms(5) by (auto simp: sl_inv_def writer_inv_def Let_def seq_end_write_def)
  then show ?thesis
    by (auto simp: eval_nat_numeral Let_def and_one_u64 positions_def prod_eq_iff)
qed

theorem snapshot_wait_free_when_idle_witness:
  "(reader_step \<lparr>sr_shm_name = ''/x'', sr_shm_fd = 3, sr_mmap_size = 512, sr_capacity = 0,
      sr_is_owner = True\<rparr> (replicate 512 0) ^^ 4) R_loop = R_done 0 0 0"
proof -
  let ?m = "replicate 512 0 :: bytes"
  from snapshot_wait_free_when_idle [OF sl_reach.start [of _ ?m]] show ?thesis
    by (simp add: sl_init_def load_u64_zeros positions_def shm_layout)
qed

text \<open>What a first write leaves in the demonstration ring.\<close>

lemma demo_prog: "shm_write_prog demo_ring demo_mem [1, 2, 3, 4] = Copy_data 0 [1, 2, 3, 4] # publish 0 4"
  using demo_rep by (simp add: shm_write_prog_def demo_ring_def)

lemma demo_write:
  "\<exists>m. shm_write demo_ring demo_mem [1, 2, 3, 4] = Inr m \<and> load_u64 m write_pos_off = 0 \<and>
       load_u64 m total_written_off = 4 \<and> sr_data demo_ring m = [1, 2, 3, 4] \<and>
       516 \<le> length m \<and> even (unat (load_u64 m sequence_off))"
proof -
  let ?a = "[1, 2, 3, 4] :: bytes"
  define m where "m = overwrite demo_mem (header_size + 0) ?a"
  have cap: "sr_capacity demo_ring = 4" by (simp add: demo_ring_def)
  have mem: "header_size + sr_capacity demo_ring \<le> length demo_mem"
    and seq: "even (unat (load_u64 demo_mem sequence_off))"
    using demo_rep by simp_all
  have "0 + length ?a \<le> sr_capacity demo_ring" by (simp add: cap)
  note copy = run_copy [OF this mem, folded m_def]
  have hdr: "header_size \<le> length m" using copy(3) mem by simp
  note pub = published_load [OF hdr, of 0 4]
  have "shm_write demo_ring demo_mem ?a = Inr (published m 0 4)"
    using copy(1) by (simp add: shm_write_def demo_prog run_publish [OF hdr] del: exec_op.simps)
  moreover have "sr_data demo_ring (published m 0 4) = ?a"
    using copy(2) length_sr_data [OF mem] by (simp add: sr_data_def pub(6) cap)
  moreover have "516 \<le> length m"
    using copy(3) mem by (simp add: cap shm_layout)
  ultimately show ?thesis
    using pub seq copy(5) by (simp add: even_add_2_u64)
qed

lemma demo_torn_dump:
  assumes "516 \<le> length m" "sr_data demo_ring m = [1, 2, 3, 4]"
  shows "dump_at demo_ring (overwrite m header_size [5, 6]) 0 4 = Inr [5, 6, 3, 4]"
proof -
  let ?b = "[5, 6] :: bytes" and ?m = "overwrite m (header_size + 0) [5, 6]"
  have cap: "sr_capacity demo_ring = 4" by (simp add: demo_ring_def)
  have fits: "0 + length ?b \<le> sr_capacity demo_ring"
    and mem: "header_size + sr_capacity demo_ring \<le> length m"
    using assms(1) by (simp_all add: cap shm_layout)
  note copy = run_copy [OF fits mem]
  have data: "sr_data demo_ring ?m = [5, 6, 3, 4]"
    using copy(2) assms(2) by (simp add: overwrite_def)
  then have data': "sr_data demo_ring (overwrite m header_size ?b) = [5, 6, 3, 4]" by simp
  have "header_size + sr_capacity demo_ring \<le> length ?m" using copy(3) mem by simp
  then have "data_slice ?m 0 4 = Inr [5, 6, 3, 4]" "data_slice ?m 0 0 = Inr []"
    by (simp_all add: data_slice_sr_data [of _ _ demo_ring] data' cap)
  then show ?thesis
    by (simp add: dump_at_def cap)
qed

lemma demo_no_window: "([5, 6, 3, 4] :: bytes) \<noteq> last_n 4 (take k [1, 2, 3, 4, 5, 6])"
proof (cases "k \<le> 6")
  case True
  then have "k \<in> {0, 1, 2, 3, 4, 5, 6}" by auto
  then show ?thesis by (auto simp: last_n_def)
next
  case False
  then show ?thesis by (simp add: last_n_def)
qed

text \<open>
  C8: the SeqLock protects the two counters but not the data. The data are copied before the
  sequence number becomes odd and the reader copies them after its check, so a \<open>dump\<close> that
  overlaps a write can return bytes that were never the newest bytes of any moment: here a
  ring of four bytes holds 1 2 3 4, 5 6 are being written and the dump returns 5 6 3 4.
\<close>

theorem dump_torn_by_concurrent_write:
  "\<exists>r mem s d. sr_rep (r, mem) [] \<and> sl_reach r mem s \<and> sl_reader s = R_dumped (Inr d) \<and>
     (\<forall>k. d \<noteq> last_n (sr_capacity r) (take k (sl_sent s)))"
proof -
  let ?r = demo_ring and ?b = "[5, 6] :: bytes"
  from demo_write obtain m1 where w1: "shm_write ?r demo_mem [1, 2, 3, 4] = Inr m1"
      and m1: "load_u64 m1 write_pos_off = 0" "load_u64 m1 total_written_off = 4"
      "sr_data ?r m1 = [1, 2, 3, 4]" "516 \<le> length m1" "even (unat (load_u64 m1 sequence_off))"
    by blast
  let ?s0 = "sl_init demo_mem"
  let ?s1 = "?s0\<lparr>sl_sent := sl_sent ?s0 @ [1, 2, 3, 4], sl_mem := m1, sl_todo := [],
      sl_hist := sl_hist ?s0 @ [positions m1]\<rparr>"
  let ?s2 = "?s1\<lparr>sl_reader := R_done (load_u64 m1 sequence_off) 0 4\<rparr>"
  let ?s3 = "?s2\<lparr>sl_todo := Copy_data 0 ?b # publish 2 6, sl_sent := sl_sent ?s2 @ ?b\<rparr>"
  let ?m = "overwrite m1 header_size ?b"
  let ?s4 = "?s3\<lparr>sl_mem := ?m, sl_todo := publish 2 6, sl_hist := sl_hist ?s3\<rparr>"
  have "sl_reach ?r demo_mem ?s1"
    by (rule sl_reach_write [OF sl_reach.start]) (simp_all add: sl_init_def w1 demo_prog)
  then have "sl_reach ?r demo_mem ?s2"
    using sl_reach_snapshot [of ?r demo_mem ?s1] m1 by (simp add: sl_init_def)
  moreover have "shm_write_prog ?r m1 ?b = Copy_data 0 ?b # publish 2 6"
    using m1 by (simp add: shm_write_prog_def Let_def demo_ring_def)
  ultimately have "sl_reach ?r demo_mem ?s3"
    using sl_reach.step [OF _ write_start [of ?s2 ?r ?b]] by simp
  moreover have "exec_op m1 (Copy_data 0 ?b) = Inr ?m"
    using m1(4) by (simp add: shm_layout)
  ultimately have "sl_reach ?r demo_mem ?s4"
    using sl_reach.step [OF _ write_op [of ?s3 "Copy_data 0 ?b" "publish 2 6" ?m ?r]]
    by (simp add: publish_hist_def)
  note reach4 = this
  have "sl_reach ?r demo_mem (?s4\<lparr>sl_reader := R_dumped (Inr [5, 6, 3, 4])\<rparr>)"
    using sl_reach_read [OF reach4] demo_torn_dump [OF m1(4,3)] by simp
  moreover have "sl_sent ?s4 = [1, 2, 3, 4, 5, 6]" by (simp add: sl_init_def)
  then have "\<forall>k. [5, 6, 3, 4] \<noteq> last_n (sr_capacity ?r) (take k (sl_sent ?s4))"
    using demo_no_window by (simp add: demo_ring_def)
  ultimately show ?thesis
    using demo_rep by (intro exI conjI) (assumption | simp)+
qed

end
