(* ===== verification/Two_Writers.thy ===== *)
theory Two_Writers
  imports Seqlock
begin

section \<open>Two writers of one ring (\<open>shared_ring.rs\<close>)\<close>

text \<open>
  The sequence number orders one writer and its readers. After a takeover that the local client
  did not acknowledge (\<open>force_complete_takeover\<close> goes on after the timeout) the daemon reads the
  PTY and writes the ring while the client still does both. The system of two writers, each
  running the operations of \<open>shm_write_prog\<close> for the positions it loaded when it started.
\<close>

record tw_state =
  tw_mem :: bytes
  tw_daemon :: "mem_op list"
  tw_client :: "mem_op list"
  tw_sent :: "bytes list"

definition tw_init :: "bytes \<Rightarrow> tw_state" where
  "tw_init mem = \<lparr>tw_mem = mem, tw_daemon = [], tw_client = [], tw_sent = []\<rparr>"

inductive tw_step :: "shared_ring \<Rightarrow> tw_state \<Rightarrow> tw_state \<Rightarrow> bool" for r where
  daemon_start: "tw_daemon s = [] \<Longrightarrow>
     tw_step r s (s\<lparr>tw_daemon := shm_write_prog r (tw_mem s) d, tw_sent := tw_sent s @ [d]\<rparr>)"
| client_start: "tw_client s = [] \<Longrightarrow>
     tw_step r s (s\<lparr>tw_client := shm_write_prog r (tw_mem s) d, tw_sent := tw_sent s @ [d]\<rparr>)"
| daemon_op: "tw_daemon s = op # rest \<Longrightarrow> exec_op (tw_mem s) op = Inr mem' \<Longrightarrow>
     tw_step r s (s\<lparr>tw_mem := mem', tw_daemon := rest\<rparr>)"
| client_op: "tw_client s = op # rest \<Longrightarrow> exec_op (tw_mem s) op = Inr mem' \<Longrightarrow>
     tw_step r s (s\<lparr>tw_mem := mem', tw_client := rest\<rparr>)"

inductive tw_reach :: "shared_ring \<Rightarrow> bytes \<Rightarrow> tw_state \<Rightarrow> bool" for r mem where
  start: "tw_reach r mem (tw_init mem)"
| step: "tw_reach r mem s \<Longrightarrow> tw_step r s s' \<Longrightarrow> tw_reach r mem s'"

text \<open>A writer that is not interrupted.\<close>

lemma tw_daemon_runs:
  "tw_reach r mem s \<Longrightarrow> tw_daemon s = ops \<Longrightarrow> run_res exec_op (tw_mem s) ops = Inr m \<Longrightarrow>
   tw_reach r mem (s\<lparr>tw_mem := m, tw_daemon := []\<rparr>)"
proof (induction ops arbitrary: s)
  case Nil
  then have eq: "s\<lparr>tw_mem := m, tw_daemon := []\<rparr> = s" by (cases s) simp
  show ?case unfolding eq by (rule Nil.prems(1))
next
  case (Cons op ops)
  from Cons.prems(3) obtain m1 where m1: "exec_op (tw_mem s) op = Inr m1" "run_res exec_op m1 ops = Inr m"
    by (auto simp: bind_res_Inr_iff)
  have "tw_reach r mem (s\<lparr>tw_mem := m1, tw_daemon := ops\<rparr>)"
    by (rule tw_reach.step [OF Cons.prems(1) daemon_op [OF Cons.prems(2) m1(1)]])
  from Cons.IH [OF this] m1(2) show ?case by simp
qed

lemma tw_client_runs:
  "tw_reach r mem s \<Longrightarrow> tw_client s = ops \<Longrightarrow> run_res exec_op (tw_mem s) ops = Inr m \<Longrightarrow>
   tw_reach r mem (s\<lparr>tw_mem := m, tw_client := []\<rparr>)"
proof (induction ops arbitrary: s)
  case Nil
  then have eq: "s\<lparr>tw_mem := m, tw_client := []\<rparr> = s" by (cases s) simp
  show ?case unfolding eq by (rule Nil.prems(1))
next
  case (Cons op ops)
  from Cons.prems(3) obtain m1 where m1: "exec_op (tw_mem s) op = Inr m1" "run_res exec_op m1 ops = Inr m"
    by (auto simp: bind_res_Inr_iff)
  have "tw_reach r mem (s\<lparr>tw_mem := m1, tw_client := ops\<rparr>)"
    by (rule tw_reach.step [OF Cons.prems(1) client_op [OF Cons.prems(2) m1(1)]])
  from Cons.IH [OF this] m1(2) show ?case by simp
qed

subsection \<open>A circular write over a shorter one\<close>

lemma nth_overwrite:
  assumes "k + length ys \<le> length xs" "i < length xs"
  shows "overwrite xs k ys ! i = (if k \<le> i \<and> i < k + length ys then ys ! (i - k) else xs ! i)"
proof -
  have "take k xs ! i = xs ! i" if "i < k" using that by simp
  moreover have "drop (k + length ys) xs ! (i - k - length ys) = xs ! i" if "\<not> i < k" "\<not> i - k < length ys"
    using that assms by simp
  ultimately show ?thesis using assms by (simp add: overwrite_def nth_append min_def less_diff_conv2)
qed

lemma nth_circ_put:
  assumes "w < length b" "length d \<le> length b" "i < length b"
  shows "circ_put b w d ! i =
     (if w \<le> i \<and> i < w + length d then d ! (i - w)
      else if i + length b < w + length d then d ! (i + length b - w) else b ! i)"
proof (cases "length d \<le> length b - w")
  case True
  then have "\<not> i + length b < w + length d" using assms by linarith
  with True show ?thesis using assms by (simp add: circ_put_def nth_overwrite)
next
  case False
  let ?f = "length b - w"
  have "circ_put b w d ! i = (if i < length d - ?f then drop ?f d ! i else overwrite b w (take ?f d) ! i)"
    using False assms by (simp add: circ_put_def Let_def nth_overwrite)
  moreover have "overwrite b w (take ?f d) ! i = (if w \<le> i then d ! (i - w) else b ! i)"
    using False assms by (simp add: nth_overwrite)
  ultimately show ?thesis using False assms by (auto simp: algebra_simps)
qed

lemma circ_put_over:
  assumes "w < length b" "length x \<le> length y" "length y \<le> length b"
  shows "circ_put (circ_put b w x) w y = circ_put b w y"
proof (rule nth_equalityI)
  show "length (circ_put (circ_put b w x) w y) = length (circ_put b w y)" using assms by simp
  fix i assume "i < length (circ_put (circ_put b w x) w y)"
  then have "i < length b" using assms by simp
  then show "circ_put (circ_put b w x) w y ! i = circ_put b w y ! i"
    using assms by (simp add: nth_circ_put)
qed
text \<open>
  C9: with two writers the ring loses output. When both load the positions before either
  publishes, the write that finishes first vanishes without a trace, if it is not longer: the
  ring stands for the history with only the other write, its counters do not count the lost
  bytes, and no reader can tell.
\<close>

theorem two_writers_lose_output:
  assumes rep: "sr_rep (r, mem) h" and room: "length h + length x + length y < 2 ^ 64"
    and len: "x \<noteq> []" "length x \<le> length y" "length y < sr_capacity r"
  shows "\<exists>s. tw_reach r mem s \<and> tw_daemon s = [] \<and> tw_client s = [] \<and> tw_sent s = [x, y] \<and>
     sr_rep (r, tw_mem s) (h @ y) \<and> shm_dump r (tw_mem s) = Inr (last_n (sr_capacity r) (h @ y))"
proof -
  let ?c = "sr_capacity r" and ?w = "unat (load_u64 mem write_pos_off)"
  from rep have mem: "header_size + ?c \<le> length mem" and c: "?c < 2 ^ 63"
    and tot: "load_u64 mem total_written_off = of_nat (length h)" and circ: "circ_rep (sr_data r mem) ?w h"
    by auto
  have w: "?w < ?c" by (rule sr_rep_write_pos [OF rep])
  have y: "y \<noteq> []" using len by auto
  have x: "length x < ?c" using len by simp
  have "length h + length x < 2 ^ 64" using room by simp
  from shm_write_rep [OF rep this] obtain m1 where m1: "shm_write r mem x = Inr m1" "sr_rep (r, m1) (h @ x)"
    by blast
  obtain m where m: "m1 = published m (of_nat ((?w + length x) mod ?c)) (of_nat (length h) + of_nat (length x))"
      "sr_data r m = circ_put (sr_data r mem) ?w x" "length m = length mem"
    using run_prog_small [OF mem c w len(1) x] m1(1) tot by (auto simp: shm_write_def)
  have mem1: "header_size + ?c \<le> length m1" using m1(2) by simp
  have "header_size \<le> length m" using mem m(3) by simp
  then have data: "sr_data r m1 = circ_put (sr_data r mem) ?w x"
    using m published_load(6) [of m] by (simp add: sr_data_def)
  from run_prog_small [OF mem1 c w y len(3)] obtain m2 where
      run: "run_res exec_op m1 (shm_write_prog r mem y) =
        Inr (published m2 (of_nat ((?w + length y) mod ?c)) (of_nat (length (h @ y))))"
      and m2: "sr_data r m2 = circ_put (sr_data r m1) ?w y" "length m2 = length m1" "take 16 m2 = take 16 m1"
        "load_u64 m2 sequence_off = load_u64 m1 sequence_off"
    by (auto simp: tot)
  have "length (sr_data r mem) = ?c" by (rule length_sr_data [OF mem])
  then have "sr_data r m2 = circ_put (sr_data r mem) ?w y"
    using m2(1) data w len by (simp add: circ_put_over)
  moreover have "circ_rep (circ_put (sr_data r mem) ?w y) ((?w + length y) mod ?c) (h @ y)"
    using circ_rep_put [OF circ, of y] len(3) length_sr_data [OF mem] by simp
  ultimately have rep2: "sr_rep (r, published m2 (of_nat ((?w + length y) mod ?c)) (of_nat (length (h @ y)))) (h @ y)"
    using w room by (intro sr_rep_published [OF m1(2) _ m2(2-4)]) simp_all
  let ?px = "shm_write_prog r mem x" and ?py = "shm_write_prog r mem y"
    and ?m3 = "published m2 (of_nat ((?w + length y) mod ?c)) (of_nat (length (h @ y)))"
  have "tw_reach r mem \<lparr>tw_mem = mem, tw_daemon = ?px, tw_client = [], tw_sent = [x]\<rparr>" (is "tw_reach _ _ ?s1")
    using tw_reach.step [OF tw_reach.start daemon_start [of "tw_init mem" r x]] by (simp add: tw_init_def)
  from tw_reach.step [OF this client_start [of ?s1 r y]]
  have "tw_reach r mem \<lparr>tw_mem = mem, tw_daemon = ?px, tw_client = ?py, tw_sent = [x, y]\<rparr>" by simp
  from tw_daemon_runs [OF this, of ?px m1] m1(1)
  have "tw_reach r mem \<lparr>tw_mem = m1, tw_daemon = [], tw_client = ?py, tw_sent = [x, y]\<rparr>"
    by (simp add: shm_write_def)
  from tw_client_runs [OF this, of ?py ?m3] run
  have "tw_reach r mem \<lparr>tw_mem = ?m3, tw_daemon = [], tw_client = [], tw_sent = [x, y]\<rparr>"
    by (simp del: of_nat_add length_append)
  with rep2 shm_dump_rep [OF rep2] show ?thesis
    by (intro exI [of _ "\<lparr>tw_mem = ?m3, tw_daemon = [], tw_client = [], tw_sent = [x, y]\<rparr>"]) simp
qed

theorem two_writers_lose_output_witness:
  "\<exists>s. tw_reach demo_ring demo_mem s \<and> tw_daemon s = [] \<and> tw_client s = [] \<and> tw_sent s = [[1], [2, 3]] \<and>
     shm_dump demo_ring (tw_mem s) = Inr [2, 3]"
  using two_writers_lose_output [OF demo_rep, of "[1]" "[2, 3]"] by (auto simp: demo_ring_def last_n_def simp del: sr_rep.simps)

end
