(* ===== verification/Protocol.thy ===== *)
theory Protocol
  imports Memory
begin

section \<open>The control protocol (\<open>protocol.rs\<close>)\<close>

text \<open>
  The messages of the control plane and their framing: four bytes of big-endian length, then
  the JSON of the message. The JSON text itself is the work of \<open>serde_json\<close>, which is not part
  of the repository: \<open>to_vec\<close> and \<open>from_slice\<close> are parameters of the framing functions.
\<close>

type_synonym uuid = "128 word"

definition protocol_version :: u16 where "protocol_version = 1"

datatype request =
    Req_Create "string option" u16 u16 "string option" "u32 option" "(string \<times> string) list option"
  | Req_Attach uuid
  | Req_Detach uuid u16 u16 "string option"
  | Req_List
  | Req_Kill uuid
  | Req_WinsizeUpdate uuid u16 u16
  | Req_Ping
  | Req_Shutdown
  | Req_Input uuid string

datatype push =
    ForceDetach uuid
  | ResumeAttach uuid u16 u16 pid string "string option"

datatype push_ack =
    DetachAck uuid "string option"
  | ResumeAck uuid

record session_info =
  si_id :: uuid
  si_state :: string
  si_child_pid :: pid
  si_cols :: u16
  si_rows :: u16
  si_ptsname :: string
  si_child_alive :: bool
  si_ring_buffer_bytes :: u64
  si_created_secs_ago :: nat
  si_last_active_secs_ago :: nat
  si_terminal_id :: "u32 option"

text \<open>\<open>Response::Error\<close> carries a formatted text; the model keeps which of them it is.\<close>

datatype error_text =
    Session_not_found uuid
  | Child_dead uuid
  | Dup_failed
  | Create_pty_failed
  | Base64_decode
  | Parse_error string
  | No_response

datatype response =
    Created uuid
  | AttachReady uuid u16 u16 pid string "string option"
  | AttachDeny uuid string
  | Detached uuid
  | SessionList "session_info list"
  | Killed uuid
  | WinsizeUpdated uuid
  | Pong u16 nat
  | ShuttingDown
  | InputAck uuid
  | Resp_Error error_text

subsection \<open>Framing\<close>

definition encode_message :: "('m \<Rightarrow> bytes) \<Rightarrow> 'm \<Rightarrow> bytes" where
  "encode_message to_vec msg =
     (let json = to_vec msg; len = of_nat (length json) :: u32 in be_bytes 4 (unat len) @ json)"

definition try_decode_message ::
  "(bytes \<Rightarrow> string + 'm) \<Rightarrow> bytes \<Rightarrow> ((string + 'm) \<times> nat) option" where
  "try_decode_message from_slice buf =
     (if length buf < 4 then None
      else
        let len = be_nat (take 4 buf) in
        if length buf < 4 + len then None
        else Some (from_slice (take len (drop 4 buf)), 4 + len))"

lemma try_decode_consumed:
  "try_decode_message f buf = Some (x, n) \<Longrightarrow> 4 \<le> n \<and> n \<le> length buf"
  by (auto simp: try_decode_message_def Let_def split: if_splits)

text \<open>
  The receive loop of both ends: decode as long as the buffer starts with a complete message
  and drop what was consumed (\<open>read_buf.drain(..consumed)\<close>).
\<close>

function drain_messages :: "(bytes \<Rightarrow> string + 'm) \<Rightarrow> bytes \<Rightarrow> (string + 'm) list \<times> bytes" where
  "drain_messages from_slice buf =
     (case try_decode_message from_slice buf of
        None \<Rightarrow> ([], buf)
      | Some (x, n) \<Rightarrow>
          (case drain_messages from_slice (drop n buf) of (xs, rest) \<Rightarrow> (x # xs, rest)))"
  by pat_completeness auto
termination
  by (relation "measure (\<lambda>(f, buf). length buf)") (auto dest: try_decode_consumed)

declare drain_messages.simps [simp del]

text \<open>A connection that receives its bytes in chunks, as \<open>read\<close> happens to deliver them.\<close>

fun receive_chunks ::
  "(bytes \<Rightarrow> string + 'm) \<Rightarrow> bytes \<Rightarrow> bytes list \<Rightarrow> (string + 'm) list \<times> bytes" where
  "receive_chunks from_slice buf [] = ([], buf)"
| "receive_chunks from_slice buf (c # cs) =
     (case drain_messages from_slice (buf @ c) of (xs, rest) \<Rightarrow>
        (case receive_chunks from_slice rest cs of (ys, rest') \<Rightarrow> (xs @ ys, rest')))"

subsection \<open>Stream decoders\<close>

text \<open>
  What the receive loops need of a decoder: it consumes some of the buffer, and later bytes do
  not change a message that is already complete.
\<close>

locale stream_decoder =
  fixes decode :: "bytes \<Rightarrow> ('x \<times> nat) option"
    and drain :: "bytes \<Rightarrow> 'x list \<times> bytes"
  assumes decode_consumed: "decode buf = Some (x, n) \<Longrightarrow> 0 < n \<and> n \<le> length buf"
    and decode_extend: "decode buf = Some (x, n) \<Longrightarrow> decode (buf @ ext) = Some (x, n)"
    and drain_unfold: "drain buf =
      (case decode buf of None \<Rightarrow> ([], buf)
       | Some (x, n) \<Rightarrow> (case drain (drop n buf) of (xs, rest) \<Rightarrow> (x # xs, rest)))"
begin

lemma drain_append:
  "drain (a @ b) = (case drain a of (xs, rest) \<Rightarrow>
     (case drain (rest @ b) of (ys, rest') \<Rightarrow> (xs @ ys, rest')))"
proof (induction "length a" arbitrary: a rule: less_induct)
  case less
  show ?case
  proof (cases "decode a")
    case None
    then show ?thesis by (simp add: drain_unfold [of a] split: prod.splits)
  next
    case (Some p)
    then obtain x n where d: "decode a = Some (x, n)" by (cases p) auto
    then have n: "0 < n" "n \<le> length a" and d': "decode (a @ b) = Some (x, n)"
      using decode_consumed decode_extend by auto
    then have "drain (drop n a @ b) = (case drain (drop n a) of (xs, rest) \<Rightarrow>
        (case drain (rest @ b) of (ys, rest') \<Rightarrow> (xs @ ys, rest')))"
      by (intro less) simp
    with d d' n show ?thesis
      by (simp add: drain_unfold [of "a @ b"] drain_unfold [of a] split: prod.splits)
  qed
qed

lemma drain_rest: "drain a = (xs, rest) \<Longrightarrow> drain rest = ([], rest)"
proof (induction "length a" arbitrary: a xs rule: less_induct)
  case less
  show ?case
  proof (cases "decode a")
    case None
    with less.prems have "rest = a" by (simp add: drain_unfold [of a])
    with None show ?thesis by (simp add: drain_unfold [of a])
  next
    case (Some p)
    then obtain x n where d: "decode a = Some (x, n)" by (cases p) auto
    with decode_consumed have "length (drop n a) < length a" by fastforce
    moreover from less.prems d obtain ys where "drain (drop n a) = (ys, rest)"
      by (simp add: drain_unfold [of a] split: prod.splits)
    ultimately show ?thesis by (rule less.hyps)
  qed
qed

end

lemma try_decode_extend:
  "try_decode_message f buf = Some (x, n) \<Longrightarrow> try_decode_message f (buf @ ext) = Some (x, n)"
  by (auto simp: try_decode_message_def Let_def split: if_splits)

interpretation framing: stream_decoder "try_decode_message f" "drain_messages f" for f
  by unfold_locales
     (auto dest: try_decode_consumed intro: try_decode_extend simp: drain_messages.simps [of f])

lemma receive_chunks_drain:
  "drain_messages f buf = ([], buf) \<Longrightarrow>
   receive_chunks f buf cs = drain_messages f (buf @ concat cs)"
proof (induction cs arbitrary: buf)
  case Nil
  then show ?case by simp
next
  case (Cons c cs)
  obtain xs rest where d: "drain_messages f (buf @ c) = (xs, rest)" by fastforce
  with framing.drain_rest [OF d] Cons.IH [of rest] framing.drain_append [of f "buf @ c" "concat cs"]
  show ?case by simp
qed

lemma encode_message_length:
  "length (encode_message to_vec m) = 4 + length (to_vec m)"
  by (simp add: encode_message_def Let_def)

lemma unat_of_nat_u32: "a < 2 ^ 32 \<Longrightarrow> unat (of_nat a :: u32) = a"
  by (simp add: unat_of_nat take_bit_nat_eq_self)

lemma try_decode_encode:
  assumes "length (to_vec m) < 2 ^ 32"
  shows "try_decode_message f (encode_message to_vec m @ rest) =
         Some (f (to_vec m), length (encode_message to_vec m))"
  using assms
  by (simp add: try_decode_message_def encode_message_def Let_def unat_of_nat_u32)

lemma drain_encoded:
  assumes "\<And>m. m \<in> set ms \<Longrightarrow> length (to_vec m) < 2 ^ 32"
  shows "drain_messages f (concat (map (encode_message to_vec) ms)) = (map (f \<circ> to_vec) ms, [])"
  using assms
proof (induction ms)
  case Nil
  then show ?case by (simp add: drain_messages.simps try_decode_message_def)
next
  case (Cons m ms)
  then show ?case
    by (simp add: drain_messages.simps [of f "encode_message to_vec m @ _"] try_decode_encode)
qed

lemma try_decode_prefix:
  assumes "length (to_vec m) < 2 ^ 32" and "n < length (encode_message to_vec m)"
  shows "try_decode_message f (take n (encode_message to_vec m)) = None"
proof (cases "n < 4")
  case True
  with assms(2) show ?thesis by (simp add: try_decode_message_def min_def)
next
  case False
  with assms show ?thesis
    by (simp add: try_decode_message_def encode_message_def Let_def unat_of_nat_u32 min_def)
qed

subsection \<open>Properties\<close>

lemma be_bytes_4:
  "be_bytes 4 x = [of_nat (x div 256 div 256 div 256 mod 256), of_nat (x div 256 div 256 mod 256),
     of_nat (x div 256 mod 256), of_nat (x mod 256)]"
proof -
  have four: "4 = Suc (Suc (Suc (Suc 0)))" by simp
  show ?thesis unfolding be_bytes_def four by (simp only: le_bytes.simps rev.simps append.simps)
qed

text \<open>The wire form of the three requests without fields, as a codec for the witness.\<close>

definition demo_json :: "request \<Rightarrow> bytes" where
  "demo_json req = map of_char
     (case req of Req_List \<Rightarrow> ''{\"type\":\"List\"}'' | Req_Ping \<Rightarrow> ''{\"type\":\"Ping\"}''
      | _ \<Rightarrow> ''{\"type\":\"Shutdown\"}'')"

definition demo_parse :: "bytes \<Rightarrow> string + request" where
  "demo_parse bs =
     (if bs = demo_json Req_List then Inr Req_List
      else if bs = demo_json Req_Ping then Inr Req_Ping
      else if bs = demo_json Req_Shutdown then Inr Req_Shutdown
      else Inl ''unknown variant'')"



end
