(* ===== verification/Terminal_State.thy ===== *)
theory Terminal_State
  imports Protocol
begin

section \<open>The daemon-side terminal parser (\<open>terminal_state.rs\<close>)\<close>

text \<open>
  The grid and the escape-sequence parser are the \<open>terminal-core\<close> crate, which is not part of
  the repository. What \<open>TerminalState\<close> adds is which calls reach it, so the state is the list
  of these calls, and the rendering of a grid snapshot is a function of it that the daemon's
  environment supplies (\<open>capture\<close>, with \<open>base64\<close> as the encoder).
\<close>

datatype term_call =
    T_new u16 u16
  | T_advance bytes
  | T_resize u16 u16

record terminal_state =
  ts_calls :: "term_call list"

definition ts_new :: "u16 \<Rightarrow> u16 \<Rightarrow> terminal_state" where
  "ts_new cols rows = \<lparr>ts_calls = [T_new cols rows]\<rparr>"

definition ts_feed :: "bytes \<Rightarrow> terminal_state \<Rightarrow> terminal_state" where
  "ts_feed data ts = ts\<lparr>ts_calls := ts_calls ts @ [T_advance data]\<rparr>"

definition ts_replay_history :: "bytes \<Rightarrow> terminal_state \<Rightarrow> terminal_state" where
  "ts_replay_history data ts =
     (if data = [] then ts else ts\<lparr>ts_calls := ts_calls ts @ [T_advance data]\<rparr>)"

definition ts_resize :: "u16 \<Rightarrow> u16 \<Rightarrow> terminal_state \<Rightarrow> terminal_state" where
  "ts_resize cols rows ts = ts\<lparr>ts_calls := ts_calls ts @ [T_resize cols rows]\<rparr>"

definition ts_capture_snapshot ::
  "(term_call list \<Rightarrow> bytes) \<Rightarrow> (bytes \<Rightarrow> string) \<Rightarrow> terminal_state \<Rightarrow> string option" where
  "ts_capture_snapshot capture base64 ts = Some (base64 (capture (ts_calls ts)))"

text \<open>The bytes the parser has been given, in order.\<close>

fun call_bytes :: "term_call \<Rightarrow> bytes" where
  "call_bytes (T_advance data) = data"
| "call_bytes (T_new cols rows) = []"
| "call_bytes (T_resize cols rows) = []"

definition ts_fed :: "terminal_state \<Rightarrow> bytes" where
  "ts_fed ts = concat (map call_bytes (ts_calls ts))"

lemma ts_fed_simps [simp]:
  "ts_fed (ts_new cols rows) = []"
  "ts_fed (ts_feed data ts) = ts_fed ts @ data"
  "ts_fed (ts_replay_history data ts) = ts_fed ts @ data"
  "ts_fed (ts_resize cols rows ts) = ts_fed ts"
  by (simp_all add: ts_fed_def ts_new_def ts_feed_def ts_replay_history_def ts_resize_def)

end
