(* ===== verification/Keyed_Table.thy ===== *)
theory Keyed_Table
  imports Main "HOL-Library.AList"
begin

section \<open>Tables with a key\<close>

text \<open>
  The contract of the hash maps of the source: what a lookup returns after an insertion and after
  a removal. It is met by the association lists that model them, by the session manager, and by
  the server state seen as a table of its sessions, with the handlers that remove one.
\<close>

locale keyed_table =
  fixes look :: "'t \<Rightarrow> 'k \<Rightarrow> 'v option"
    and ins :: "'k \<Rightarrow> 'v \<Rightarrow> 't \<Rightarrow> 't"
    and del :: "'k \<Rightarrow> 't \<Rightarrow> 't"
  assumes look_ins: "look (ins k v t) = (look t)(k \<mapsto> v)"
    and look_del: "look (del k t) = (look t)(k := None)"
begin

lemma look_ins_if: "look (ins k v t) j = (if j = k then Some v else look t j)"
  by (simp add: look_ins)

lemma look_del_if: "look (del k t) j = (if j = k then None else look t j)"
  by (simp add: look_del)

lemma look_fold_ins: "look (fold (\<lambda>(k, v). ins k v) xs t) = look t ++ map_of (rev xs)"
  by (induction xs arbitrary: t) (auto simp: look_ins)

lemma look_fold_ins_distinct:
  assumes "distinct (map fst xs)"
  shows "look (fold (\<lambda>(k, v). ins k v) xs t) k = (case map_of xs k of None \<Rightarrow> look t k | Some v \<Rightarrow> Some v)"
proof -
  have "map_of (rev xs) = map_of xs"
    using assms by (simp add: map_of_inject_set rev_map [symmetric])
  then show ?thesis by (simp add: look_fold_ins map_add_def)
qed

lemma look_fold_del: "look (fold (\<lambda>x. del (f x)) xs t) k = (if k \<in> f ` set xs then None else look t k)"
  by (induction xs arbitrary: t) (auto simp: look_del)

lemma look_fold_del_Some: "look (fold (\<lambda>x. del (f x)) xs t) k = Some v \<Longrightarrow> look t k = Some v"
  by (simp add: look_fold_del split: if_splits)

end

interpretation alist: keyed_table map_of AList.update AList.delete
  by unfold_locales (simp_all add: AList.update_conv' AList.delete_conv')

end
