(* ===== verification/Session.thy ===== *)
theory Session
  imports Shared_Ring_Props Terminal_State Keyed_Table
begin

section \<open>Sessions and the session manager (\<open>session.rs\<close>)\<close>

text \<open>
  A session is a shell with its PTY, its shared ring and the bookkeeping of who reads the PTY.
  The record has the fields of \<open>Session\<close>; \<open>s_ring_mem\<close> is the content of the shared mapping
  behind \<open>s_shared_ring\<close>, which the attached client writes too.
\<close>

datatype session_state = Attached | Active | Idle

record winsize =
  ws_cols :: u16
  ws_rows :: u16

record session =
  s_id :: uuid
  s_master_fd :: fd
  s_child_pid :: pid
  s_ptsname :: string
  s_state :: session_state
  s_winsize :: winsize
  s_shared_ring :: shared_ring
  s_ring_mem :: bytes
  s_shm_name :: string
  s_created_at :: instant
  s_last_active :: instant
  s_last_attached :: "instant option"
  s_owner_fd :: "fd option"
  s_terminal_id :: "u32 option"
  s_grid_snapshot :: "string option"
  s_terminal_state :: "terminal_state option"
  s_ws_client_count :: u32
  s_previous_owner_fd :: "fd option"
  s_baton_release_at :: "instant option"

subsection \<open>What a session does to the operating system\<close>

text \<open>
  The calls the daemon makes that others can see. A run appends them to a trace in the order
  the code makes them; the results the code reads back are inputs of the routines.
\<close>

datatype sys_call =
    Kq_add fd
  | Kq_delete fd
  | Kq_proc pid
  | Fd_open fd
  | Fd_dup fd fd
  | Fd_close fd
  | Sig_kill pid string
  | Wait_pid pid
  | Shm_sys shm_call
  | Sock_write fd response
  | Sock_push fd push
  | Sock_send_fd fd fd
  | Pty_write fd bytes
  | Pty_set_winsize fd u16 u16
  | File_write string string
  | File_remove string

subsection \<open>Names derived from the session id\<close>

text \<open>The first eight characters of a UUID's text form are the hex digits of its top 32 bits.\<close>

definition hex_digit :: "nat \<Rightarrow> char" where
  "hex_digit d = (''0123456789abcdef'') ! d"

definition uuid_prefix :: "uuid \<Rightarrow> string" where
  "uuid_prefix sid =
     map (\<lambda>i. hex_digit (unat sid div 16 ^ (31 - i) mod 16)) [0..<8]"

definition shm_name_for_session :: "uuid \<Rightarrow> string" where
  "shm_name_for_session sid = ''/ptyd-'' @ uuid_prefix sid"

definition snapshot_path :: "uuid \<Rightarrow> string" where
  "snapshot_path sid = ''/tmp/ptyd-snap-'' @ uuid_prefix sid @ ''.bin''"

subsection \<open>Session operations\<close>

definition session_new ::
  "instant \<Rightarrow> uuid \<Rightarrow> shm_os \<Rightarrow> fd \<Rightarrow> pid \<Rightarrow> string \<Rightarrow> winsize \<Rightarrow> u32 option \<Rightarrow>
   session res \<times> sys_call list" where
  "session_new now new_id os master_fd child_pid ptsname winsize terminal_id =
     (let shm_name = shm_name_for_session new_id in
      case shm_create os shm_name rb_default_ring_size of
        (Inl e, calls) \<Rightarrow> (Inl Panic, map Shm_sys calls)
      | (Inr (ring, mem), calls) \<Rightarrow>
          (Inr \<lparr>s_id = new_id, s_master_fd = master_fd, s_child_pid = child_pid,
               s_ptsname = ptsname, s_state = Active, s_winsize = winsize,
               s_shared_ring = ring, s_ring_mem = mem, s_shm_name = shm_name,
               s_created_at = now, s_last_active = now, s_last_attached = None,
               s_owner_fd = None, s_terminal_id = terminal_id, s_grid_snapshot = None,
               s_terminal_state = Some (ts_new (ws_cols winsize) (ws_rows winsize)),
               s_ws_client_count = 0, s_previous_owner_fd = None,
               s_baton_release_at = None\<rparr>,
           map Shm_sys calls))"

text \<open>\<open>kill(pid, 0) == 0\<close>: the answer comes from the operating system.\<close>

definition is_child_alive :: "(pid \<Rightarrow> bool) \<Rightarrow> session \<Rightarrow> bool" where
  "is_child_alive alive s = alive (s_child_pid s)"

definition session_attach :: "instant \<Rightarrow> fd \<Rightarrow> session \<Rightarrow> session" where
  "session_attach now owner_fd s =
     s\<lparr>s_state := Attached, s_owner_fd := Some owner_fd, s_last_attached := Some now\<rparr>"

definition session_detach :: "string option \<Rightarrow> session \<Rightarrow> session" where
  "session_detach snapshot s =
     (let s' = s\<lparr>s_state := Active, s_owner_fd := None\<rparr> in
      if snapshot \<noteq> None then s'\<lparr>s_grid_snapshot := snapshot\<rparr> else s')"

definition baton_detach :: "string option \<Rightarrow> session \<Rightarrow> session" where
  "baton_detach snapshot s =
     session_detach snapshot
       (if s_owner_fd s \<noteq> None then s\<lparr>s_previous_owner_fd := s_owner_fd s\<rparr> else s)"

text \<open>The fields the transitions of a session leave alone and those they set.\<close>

lemma session_detach_fields [simp]:
  "s_id (session_detach d s) = s_id s" "s_master_fd (session_detach d s) = s_master_fd s"
  "s_state (session_detach d s) = Active" "s_owner_fd (session_detach d s) = None"
  "s_previous_owner_fd (session_detach d s) = s_previous_owner_fd s"
  by (simp_all add: session_detach_def Let_def)

lemma session_attach_fields [simp]:
  "s_id (session_attach now fd s) = s_id s" "s_master_fd (session_attach now fd s) = s_master_fd s"
  "s_state (session_attach now fd s) = Attached" "s_owner_fd (session_attach now fd s) = Some fd"
  "s_previous_owner_fd (session_attach now fd s) = s_previous_owner_fd s"
  by (simp_all add: session_attach_def)

lemma baton_detach_fields [simp]:
  "s_id (baton_detach d s) = s_id s" "s_master_fd (baton_detach d s) = s_master_fd s"
  "s_state (baton_detach d s) = Active" "s_owner_fd (baton_detach d s) = None"
  "s_previous_owner_fd (baton_detach d s) =
     (if s_owner_fd s \<noteq> None then s_owner_fd s else s_previous_owner_fd s)"
  by (simp_all add: baton_detach_def)

definition degrade_to_idle :: "session \<Rightarrow> session" where
  "degrade_to_idle s = s\<lparr>s_state := Idle\<rparr>"

definition promote_to_active :: "instant \<Rightarrow> session \<Rightarrow> session" where
  "promote_to_active now s = s\<lparr>s_state := Active, s_last_active := now\<rparr>"

definition session_cleanup :: "(pid \<Rightarrow> bool) \<Rightarrow> session \<Rightarrow> session \<times> sys_call list" where
  "session_cleanup alive s =
     (s\<lparr>s_master_fd := -1\<rparr>,
      (if is_child_alive alive s then [Sig_kill (s_child_pid s) ''HUP''] else [])
      @ [Fd_close (s_master_fd s)]
      @ map Shm_sys (snd (shm_unlink 0 (s_shared_ring s))))"

text \<open>\<open>Drop\<close>: clean up unless that was done, then the fields go, the ring with its mapping.\<close>

definition session_drop :: "(pid \<Rightarrow> bool) \<Rightarrow> session \<Rightarrow> sys_call list" where
  "session_drop alive s =
     (if 0 \<le> s_master_fd s then snd (session_cleanup alive s) else [])
     @ map Shm_sys (shm_drop (s_shared_ring s))"

text \<open>
  What a session has recorded: its ring stands for the history \<open>h\<close>, and its parser was fed
  exactly \<open>h\<close>.
\<close>

definition ring_holds :: "session \<Rightarrow> bytes \<Rightarrow> bool" where
  "ring_holds s h \<longleftrightarrow> sr_rep (s_shared_ring s, s_ring_mem s) h"

definition parser_fed :: "session \<Rightarrow> bytes \<Rightarrow> bool" where
  "parser_fed s h \<longleftrightarrow> (case s_terminal_state s of None \<Rightarrow> False | Some ts \<Rightarrow> ts_fed ts = h)"

subsection \<open>The session manager\<close>

text \<open>
  \<open>HashMap<Uuid, Session>\<close> as an association list with distinct keys; its order stands for
  the iteration order of the hash map, on which no property below depends.
\<close>

type_synonym session_map = "(uuid \<times> session) list"

definition sm_add :: "session \<Rightarrow> session_map \<Rightarrow> uuid \<times> session_map" where
  "sm_add s m = (s_id s, AList.update (s_id s) s m)"

definition sm_get :: "session_map \<Rightarrow> uuid \<Rightarrow> session option" where
  "sm_get m sid = map_of m sid"

text \<open>Writing back through the reference that \<open>get_mut\<close> returned.\<close>

definition sm_put :: "uuid \<Rightarrow> session \<Rightarrow> session_map \<Rightarrow> session_map" where
  "sm_put sid s m = AList.update sid s m"

definition sm_remove :: "uuid \<Rightarrow> session_map \<Rightarrow> session option \<times> session_map" where
  "sm_remove sid m = (map_of m sid, AList.delete sid m)"

interpretation sm: keyed_table sm_get sm_put "\<lambda>sid m. snd (sm_remove sid m)"
  by unfold_locales (simp_all add: sm_get_def sm_put_def sm_remove_def fun_eq_iff AList.update_conv' AList.delete_conv')

definition sm_list :: "session_map \<Rightarrow> session list" where
  "sm_list m = sort_key s_created_at (map snd m)"

definition sm_count :: "session_map \<Rightarrow> nat" where
  "sm_count m = length m"

definition find_by_master_fd :: "session_map \<Rightarrow> fd \<Rightarrow> session option" where
  "find_by_master_fd m fd = List.find (\<lambda>s. s_master_fd s = fd) (map snd m)"

definition find_by_child_pid :: "session_map \<Rightarrow> pid \<Rightarrow> session option" where
  "find_by_child_pid m pid = List.find (\<lambda>s. s_child_pid s = pid) (map snd m)"

text \<open>
  \<open>reap_dead\<close> collects the dead first and then removes them one by one, each with a
  \<open>waitpid\<close>; removing a session drops it.
\<close>

fun reap_each :: "(pid \<Rightarrow> bool) \<Rightarrow> (uuid \<times> fd) list \<Rightarrow> session_map \<Rightarrow> session_map \<times> sys_call list" where
  "reap_each alive [] m = (m, [])"
| "reap_each alive ((sid, fd) # dead) m =
     (case map_of m sid of
        None \<Rightarrow> reap_each alive dead (AList.delete sid m)
      | Some s \<Rightarrow>
          (case reap_each alive dead (AList.delete sid m) of (m', calls) \<Rightarrow>
             (m', Wait_pid (s_child_pid s) # session_drop alive s @ calls)))"

definition reap_dead :: "(pid \<Rightarrow> bool) \<Rightarrow> session_map \<Rightarrow> (uuid \<times> fd) list \<times> session_map \<times> sys_call list" where
  "reap_dead alive m =
     (let dead = map (\<lambda>(sid, s). (sid, s_master_fd s))
                   (filter (\<lambda>(sid, s). \<not> is_child_alive alive s) m)
      in (dead, reap_each alive dead m))"

end
