(* ===== verification/Ws_State.thy ===== *)
theory Ws_State
  imports Session
begin

section \<open>Subscriptions of WebSocket clients (\<open>ws_server.rs\<close>)\<close>

text \<open>
  \<open>WsSharedState\<close> is shared, under a lock, by the main loop and the tasks that serve the
  WebSocket connections. A subscription sends events into an unbounded channel; sending to a
  channel whose receiver is gone has no effect the daemon sees, so a send is recorded with
  its channel and its event.
\<close>

datatype ws_event = Pty_output bytes | Session_ended

record ws_subscriber =
  sub_tx :: nat
  sub_client_id :: u64

record ws_shared =
  subscribers :: "(uuid \<times> ws_subscriber list) list"
  next_client_id :: u64
  client_sessions :: "(u64 \<times> uuid) list"
  next_channel :: nat

text \<open>Channels are numbered in the order they are made; \<open>next_channel\<close> is that count.\<close>

type_synonym ws_sends = "(nat \<times> ws_event) list"

definition ws_new :: ws_shared where
  "ws_new = \<lparr>subscribers = [], next_client_id = 1, client_sessions = [], next_channel = 0\<rparr>"

definition ws_next_client_id :: "ws_shared \<Rightarrow> u64 \<times> ws_shared" where
  "ws_next_client_id w = (next_client_id w, w\<lparr>next_client_id := next_client_id w + 1\<rparr>)"

definition subs_of :: "ws_shared \<Rightarrow> uuid \<Rightarrow> ws_subscriber list" where
  "subs_of w sid = (case map_of (subscribers w) sid of None \<Rightarrow> [] | Some subs \<Rightarrow> subs)"

definition ws_subscribe :: "uuid \<Rightarrow> u64 \<Rightarrow> ws_shared \<Rightarrow> nat \<times> ws_shared" where
  "ws_subscribe sid client_id w =
     (let ch = next_channel w;
          sub = \<lparr>sub_tx = ch, sub_client_id = client_id\<rparr>
      in (ch, w\<lparr>subscribers := AList.update sid (subs_of w sid @ [sub]) (subscribers w),
               client_sessions := AList.update client_id sid (client_sessions w),
               next_channel := Suc ch\<rparr>))"

definition ws_unsubscribe :: "uuid \<Rightarrow> u64 \<Rightarrow> ws_shared \<Rightarrow> ws_shared" where
  "ws_unsubscribe sid client_id w =
     (let w' = (case map_of (subscribers w) sid of
                  None \<Rightarrow> w
                | Some subs \<Rightarrow>
                    let subs' = filter (\<lambda>s. sub_client_id s \<noteq> client_id) subs in
                    if subs' = [] then w\<lparr>subscribers := AList.delete sid (subscribers w)\<rparr>
                    else w\<lparr>subscribers := AList.update sid subs' (subscribers w)\<rparr>)
      in w'\<lparr>client_sessions := AList.delete client_id (client_sessions w')\<rparr>)"

definition ws_broadcast :: "uuid \<Rightarrow> bytes \<Rightarrow> ws_shared \<Rightarrow> ws_sends" where
  "ws_broadcast sid data w =
     (case map_of (subscribers w) sid of
        None \<Rightarrow> []
      | Some subs \<Rightarrow> map (\<lambda>s. (sub_tx s, Pty_output data)) subs)"

definition ws_notify_session_ended :: "uuid \<Rightarrow> ws_shared \<Rightarrow> ws_shared \<times> ws_sends" where
  "ws_notify_session_ended sid w =
     (case map_of (subscribers w) sid of
        None \<Rightarrow> (w, [])
      | Some subs \<Rightarrow>
          (w\<lparr>subscribers := AList.delete sid (subscribers w),
             client_sessions := fold (\<lambda>s. AList.delete (sub_client_id s)) subs (client_sessions w)\<rparr>,
           map (\<lambda>s. (sub_tx s, Session_ended)) subs))"

definition ws_has_subscribers :: "uuid \<Rightarrow> ws_shared \<Rightarrow> bool" where
  "ws_has_subscribers sid w =
     (case map_of (subscribers w) sid of None \<Rightarrow> False | Some subs \<Rightarrow> subs \<noteq> [])"

end
