(* ===== verification/Server_State.thy ===== *)
theory Server_State
  imports Ws_State
begin

section \<open>State and environment of the server (\<open>server.rs\<close>)\<close>

text \<open>
  \<open>Server\<close> with its maps, plus the trace of the system calls it has made and what it has sent
  to WebSocket clients. \<open>ws_shared\<close> is an \<open>Option\<close> in the source that \<open>new\<close> fills and
  nothing empties; the model holds the value.
\<close>

definition idle_timeout :: instant where "idle_timeout = 60 * 10 ^ 9"
definition baton_pass_timeout :: instant where "baton_pass_timeout = 3 * 10 ^ 9"
definition baton_cooldown :: instant where "baton_cooldown = 2 * 10 ^ 9"

record client_state =
  c_stream :: fd
  c_read_buf :: bytes

record server =
  sv_socket_path :: string
  sv_listener_fd :: fd
  sv_sessions :: session_map
  sv_clients :: "(fd \<times> client_state) list"
  sv_pending_dup_fds :: "(uuid \<times> fd) list"
  sv_running :: bool
  sv_idle_since :: "instant option"
  sv_ws_cmd_open :: bool
  sv_ws_shared :: ws_shared
  sv_ws_wakeup_pipe :: "(fd \<times> fd) option"
  sv_trace :: "sys_call list"
  sv_ws_sent :: ws_sends
  sv_ws_replies :: "(u64 \<times> response) list"

subsection \<open>What the operating system and the libraries answer\<close>

text \<open>
  One handler runs against one environment: the results of the calls it makes. The successive
  reads of \<open>wait_for_detach_ack\<close> are a list, which ends when the deadline has passed; so are
  the results of the successive \<open>write\<close>s to a PTY. A call that returns a new descriptor is a
  function of the descriptors that are open, since the kernel picks one that is free.
\<close>

datatype ack_read = Ack_data bytes | Ack_eof | Ack_error

datatype sock_read = Sock_eof | Sock_data bytes | Sock_would_block | Sock_error

datatype pty_read = Pty_data bytes | Pty_eof | Pty_would_block | Pty_error

datatype accept_result = Accepted fd | Accept_would_block | Accept_error

record env =
  e_capture :: "term_call list \<Rightarrow> bytes"
  e_b64_encode :: "bytes \<Rightarrow> string"
  e_b64_decode :: "string \<Rightarrow> bytes option"
  e_dec_request :: "bytes \<Rightarrow> string + request"
  e_dec_push_ack :: "bytes \<Rightarrow> string + push_ack"
  e_now :: instant
  e_alive :: "pid \<Rightarrow> bool"
  e_dup :: "fd set \<Rightarrow> fd \<Rightarrow> int"
  e_write_ok :: "fd \<Rightarrow> bool"
  e_send_fd_ok :: "fd \<Rightarrow> bool"
  e_ack_reads :: "ack_read list"
  e_pty :: "fd set \<Rightarrow> string \<Rightarrow> u16 \<Rightarrow> u16 \<Rightarrow> string option \<Rightarrow> u32 option \<Rightarrow>
            (string \<times> string) list option \<Rightarrow> (fd \<times> pid \<times> string) option"
  e_uuid :: uuid
  e_shm :: shm_os
  e_pty_writes :: "int list"
  e_sock_read :: sock_read
  e_pty_read :: pty_read
  e_accepts :: "(fd set \<Rightarrow> accept_result) list"

subsection \<open>Small steps on the state\<close>

definition emit :: "sys_call list \<Rightarrow> server \<Rightarrow> server" where
  "emit calls st = st\<lparr>sv_trace := sv_trace st @ calls\<rparr>"

definition get_session :: "server \<Rightarrow> uuid \<Rightarrow> session option" where
  "get_session st sid = sm_get (sv_sessions st) sid"

definition put_session :: "uuid \<Rightarrow> session \<Rightarrow> server \<Rightarrow> server" where
  "put_session sid s st = st\<lparr>sv_sessions := sm_put sid s (sv_sessions st)\<rparr>"

definition get_client :: "server \<Rightarrow> fd \<Rightarrow> client_state option" where
  "get_client st fd = map_of (sv_clients st) fd"

definition put_client :: "fd \<Rightarrow> client_state \<Rightarrow> server \<Rightarrow> server" where
  "put_client fd c st = st\<lparr>sv_clients := AList.update fd c (sv_clients st)\<rparr>"

definition notify_ended :: "uuid \<Rightarrow> server \<Rightarrow> server" where
  "notify_ended sid st =
     (case ws_notify_session_ended sid (sv_ws_shared st) of (w, sends) \<Rightarrow>
        st\<lparr>sv_ws_shared := w, sv_ws_sent := sv_ws_sent st @ sends\<rparr>)"

text \<open>Removing a session from the map drops it.\<close>

definition drop_session :: "env \<Rightarrow> uuid \<Rightarrow> server \<Rightarrow> server" where
  "drop_session e sid st =
     (case sm_remove sid (sv_sessions st) of
        (None, m) \<Rightarrow> st\<lparr>sv_sessions := m\<rparr>
      | (Some s, m) \<Rightarrow> emit (session_drop (e_alive e) s) (st\<lparr>sv_sessions := m\<rparr>))"

definition new_fds :: "fd \<Rightarrow> (fd \<times> fd) option \<Rightarrow> fd list" where
  "new_fds listener pipe =
     listener # (case pipe of None \<Rightarrow> [] | Some (rfd, wfd) \<Rightarrow> [rfd, wfd])"

definition server_new :: "string \<Rightarrow> fd \<Rightarrow> (fd \<times> fd) option \<Rightarrow> instant \<Rightarrow> server" where
  "server_new path listener pipe now =
     \<lparr>sv_socket_path = path, sv_listener_fd = listener, sv_sessions = [], sv_clients = [],
      sv_pending_dup_fds = [], sv_running = True, sv_idle_since = Some now,
      sv_ws_cmd_open = True, sv_ws_shared = ws_new, sv_ws_wakeup_pipe = pipe,
      sv_trace = map Fd_open (new_fds listener pipe),
      sv_ws_sent = [], sv_ws_replies = []\<rparr>"

text \<open>The head of \<open>run\<close>: the listener and the read end of the wake-up pipe are registered.\<close>

definition server_start :: "server \<Rightarrow> server" where
  "server_start st =
     emit (Kq_add (sv_listener_fd st) #
           (case sv_ws_wakeup_pipe st of None \<Rightarrow> [] | Some (rfd, wfd) \<Rightarrow> [Kq_add rfd])) st"

subsection \<open>The descriptors the server holds\<close>

definition fd_list :: "server \<Rightarrow> fd list" where
  "fd_list st =
     new_fds (sv_listener_fd st) (sv_ws_wakeup_pipe st)
     @ map fst (sv_clients st)
     @ map (\<lambda>p. s_master_fd (snd p)) (sv_sessions st)
     @ map snd (sv_pending_dup_fds st)"

definition open_fds :: "server \<Rightarrow> fd set" where
  "open_fds st = set (fd_list st)"

end
