(* ===== verification/Server_Handlers.thy ===== *)
theory Server_Handlers
  imports Server_State
begin

section \<open>The request handlers (\<open>server.rs\<close>)\<close>

text \<open>
  Every handler takes the environment it runs against and the server state and returns its
  response and the new state. A handler that reads or writes a shared ring, or creates one,
  can fault and returns a result.
\<close>

subsection \<open>Create, list, kill, resize, input\<close>

definition handle_create ::
  "env \<Rightarrow> string option \<Rightarrow> u16 \<Rightarrow> u16 \<Rightarrow> string option \<Rightarrow> u32 option \<Rightarrow>
   (string \<times> string) list option \<Rightarrow> server \<Rightarrow> (response \<times> server) res" where
  "handle_create e shell cols rows working_dir terminal_id envs st =
     (let shell_str = (case shell of None \<Rightarrow> [] | Some x \<Rightarrow> x) in
      case e_pty e (open_fds st) shell_str cols rows working_dir terminal_id envs of
        None \<Rightarrow> Inr (Resp_Error Create_pty_failed, st)
      | Some (master_fd, child_pid, ptsname) \<Rightarrow>
          (case session_new (e_now e) (e_uuid e) (e_shm e) master_fd child_pid ptsname
                  \<lparr>ws_cols = cols, ws_rows = rows\<rparr> terminal_id of
             (Inl f, calls) \<Rightarrow> Inl f
           | (Inr s, calls) \<Rightarrow>
               let st = emit (Fd_open master_fd # calls @ [Kq_add master_fd, Kq_proc child_pid]) st;
                   replaced = (case get_session st (s_id s) of
                                 None \<Rightarrow> [] | Some old \<Rightarrow> session_drop (e_alive e) old);
                   (sid, m) = sm_add s (sv_sessions st)
               in Inr (Created sid, emit replaced (st\<lparr>sv_sessions := m\<rparr>))))"

definition state_name :: "session_state \<Rightarrow> string" where
  "state_name s = (case s of Attached \<Rightarrow> ''Attached'' | Active \<Rightarrow> ''Active'' | Idle \<Rightarrow> ''Idle'')"

definition as_secs :: "instant \<Rightarrow> nat" where
  "as_secs d = d div 10 ^ 9"

definition session_info_of :: "env \<Rightarrow> session \<Rightarrow> session_info" where
  "session_info_of e s =
     \<lparr>si_id = s_id s, si_state = state_name (s_state s), si_child_pid = s_child_pid s,
      si_cols = ws_cols (s_winsize s), si_rows = ws_rows (s_winsize s),
      si_ptsname = s_ptsname s, si_child_alive = is_child_alive (e_alive e) s,
      si_ring_buffer_bytes = shm_total_written (s_ring_mem s),
      si_created_secs_ago = as_secs (e_now e - s_created_at s),
      si_last_active_secs_ago = as_secs (e_now e - s_last_active s),
      si_terminal_id = s_terminal_id s\<rparr>"

definition handle_list :: "env \<Rightarrow> server \<Rightarrow> response" where
  "handle_list e st = SessionList (map (session_info_of e) (sm_list (sv_sessions st)))"

definition handle_kill :: "env \<Rightarrow> uuid \<Rightarrow> server \<Rightarrow> response \<times> server" where
  "handle_kill e sid st =
     (case sm_remove sid (sv_sessions st) of
        (None, m) \<Rightarrow> (Resp_Error (Session_not_found sid), st)
      | (Some s, m) \<Rightarrow>
          let st = emit [Kq_delete (s_master_fd s)] (st\<lparr>sv_sessions := m\<rparr>);
              st = notify_ended sid st;
              (s', calls) = session_cleanup (e_alive e) s
          in (Killed sid, emit (calls @ session_drop (e_alive e) s') st))"

definition handle_winsize_update :: "env \<Rightarrow> uuid \<Rightarrow> u16 \<Rightarrow> u16 \<Rightarrow> server \<Rightarrow> response \<times> server" where
  "handle_winsize_update e sid cols rows st =
     (case get_session st sid of
        None \<Rightarrow> (Resp_Error (Session_not_found sid), st)
      | Some s \<Rightarrow>
          let size_changed = (ws_cols (s_winsize s) \<noteq> cols \<or> ws_rows (s_winsize s) \<noteq> rows);
              s' = s\<lparr>s_winsize := \<lparr>ws_cols = cols, ws_rows = rows\<rparr>,
                     s_terminal_state := map_option (ts_resize cols rows) (s_terminal_state s)\<rparr>;
              calls = (if s_state s \<noteq> Attached then
                         Pty_set_winsize (s_master_fd s) cols rows #
                         (if size_changed then [] else [Sig_kill (s_child_pid s) ''WINCH''])
                       else [])
          in (WinsizeUpdated sid, emit calls (put_session sid s' st)))"

text \<open>
  The write loop of \<open>handle_ws_input\<close>: each result is what one \<open>write\<close> returned; a result that
  is not positive ends the loop. The value is the chunks the PTY took.
\<close>

fun pty_write_loop :: "int list \<Rightarrow> bytes \<Rightarrow> bytes list" where
  "pty_write_loop [] data = []"
| "pty_write_loop (n # ns) data =
     (if data = [] \<or> n \<le> 0 then []
      else take (nat n) data # pty_write_loop ns (drop (nat n) data))"

definition handle_ws_input :: "env \<Rightarrow> uuid \<Rightarrow> bytes \<Rightarrow> server \<Rightarrow> server" where
  "handle_ws_input e sid data st =
     (case get_session st sid of
        None \<Rightarrow> st
      | Some s \<Rightarrow>
          emit (map (Pty_write (s_master_fd s)) (pty_write_loop (e_pty_writes e) data)) st)"

definition handle_remote_input :: "env \<Rightarrow> uuid \<Rightarrow> string \<Rightarrow> server \<Rightarrow> response \<times> server" where
  "handle_remote_input e sid data_b64 st =
     (case e_b64_decode e data_b64 of
        None \<Rightarrow> (Resp_Error Base64_decode, st)
      | Some b \<Rightarrow> (InputAck sid, handle_ws_input e sid b st))"

subsection \<open>Attach and detach of the local client\<close>

text \<open>
  \<open>if let Some(ts) \<dots>\<close>: the daemon's own snapshot replaces the stored one.
\<close>

definition daemon_snapshot :: "env \<Rightarrow> session \<Rightarrow> string option" where
  "daemon_snapshot e s =
     (case s_terminal_state s of
        None \<Rightarrow> None
      | Some ts \<Rightarrow> ts_capture_snapshot (e_capture e) (e_b64_encode e) ts)"

definition refresh_snapshot :: "env \<Rightarrow> session \<Rightarrow> session" where
  "refresh_snapshot e s =
     (if daemon_snapshot e s \<noteq> None then s\<lparr>s_grid_snapshot := daemon_snapshot e s\<rparr> else s)"

definition handle_attach :: "env \<Rightarrow> fd \<Rightarrow> uuid \<Rightarrow> server \<Rightarrow> response \<times> server" where
  "handle_attach e client_fd sid st =
     (case get_session st sid of
        None \<Rightarrow> (Resp_Error (Session_not_found sid), st)
      | Some s \<Rightarrow>
          if s_state s = Attached then
            (AttachDeny sid ''already attached by another local client'', st)
          else if \<not> is_child_alive (e_alive e) s then (Resp_Error (Child_dead sid), st)
          else
            let dup_fd = e_dup e (open_fds st) (s_master_fd s) in
            if dup_fd < 0 then (Resp_Error Dup_failed, st)
            else
              let s1 = refresh_snapshot e s;
                  snapshot_file = (case s_grid_snapshot s1 of
                                     None \<Rightarrow> [] | Some d \<Rightarrow> [File_write (snapshot_path sid) d]);
                  s2 = session_attach (e_now e) client_fd (s1\<lparr>s_grid_snapshot := None\<rparr>);
                  st = emit ([Fd_dup (s_master_fd s) dup_fd] @ snapshot_file
                             @ [Kq_delete (s_master_fd s)]) st;
                  st = put_session sid s2 st;
                  st = st\<lparr>sv_pending_dup_fds :=
                            AList.update sid dup_fd (sv_pending_dup_fds st)\<rparr>
              in (AttachReady sid (ws_cols (s_winsize s)) (ws_rows (s_winsize s))
                    (s_child_pid s) (s_shm_name s) None, st))"

definition take_pending :: "uuid \<Rightarrow> server \<Rightarrow> fd option \<times> server" where
  "take_pending sid st =
     (map_of (sv_pending_dup_fds st) sid,
      st\<lparr>sv_pending_dup_fds := AList.delete sid (sv_pending_dup_fds st)\<rparr>)"

definition send_attach_data :: "env \<Rightarrow> fd \<Rightarrow> uuid \<Rightarrow> server \<Rightarrow> bool \<times> server" where
  "send_attach_data e client_fd sid st =
     (case take_pending sid st of
        (None, st) \<Rightarrow> (False, st)
      | (Some dup_fd, st) \<Rightarrow>
          (case get_client st client_fd of
             None \<Rightarrow> (False, emit [Fd_close dup_fd] st)
           | Some c \<Rightarrow>
               (e_send_fd_ok e (c_stream c),
                emit [Sock_send_fd (c_stream c) dup_fd, Fd_close dup_fd] st)))"

definition close_pending :: "uuid \<Rightarrow> server \<Rightarrow> server" where
  "close_pending sid st =
     (case take_pending sid st of
        (None, st) \<Rightarrow> st
      | (Some dup_fd, st) \<Rightarrow> emit [Fd_close dup_fd] st)"

definition revert_attach :: "uuid \<Rightarrow> server \<Rightarrow> server" where
  "revert_attach sid st =
     (let st = close_pending sid st in
      case get_session st sid of
        None \<Rightarrow> st
      | Some s \<Rightarrow> emit [Kq_add (s_master_fd s)] (put_session sid (session_detach None s) st))"

definition handle_detach ::
  "uuid \<Rightarrow> u16 \<Rightarrow> u16 \<Rightarrow> string option \<Rightarrow> server \<Rightarrow> response \<times> server" where
  "handle_detach sid cols rows grid_snapshot st =
     (case get_session st sid of
        None \<Rightarrow> (Resp_Error (Session_not_found sid), st)
      | Some s \<Rightarrow>
          let s1 = session_detach grid_snapshot s;
              resize = (0 < cols \<and> 0 < rows);
              s2 = (if resize then s1\<lparr>s_winsize := \<lparr>ws_cols = cols, ws_rows = rows\<rparr>\<rparr> else s1);
              calls = [Kq_add (s_master_fd s)]
                      @ (if resize then [Pty_set_winsize (s_master_fd s) cols rows] else [])
          in (Detached sid, emit calls (put_session sid s2 st)))"

subsection \<open>The baton pass between the local client and the remote ones\<close>

text \<open>
  The wait for \<open>DetachAck\<close>: read, append to the client's buffer, and stop at the first complete
  message, whatever it is. Running out of reads is the deadline.
\<close>

fun wait_ack_loop ::
  "(bytes \<Rightarrow> string + push_ack) \<Rightarrow> uuid \<Rightarrow> ack_read list \<Rightarrow> bytes \<Rightarrow> string option \<times> bytes" where
  "wait_ack_loop dec sid [] buf = (None, buf)"
| "wait_ack_loop dec sid (Ack_eof # rs) buf = (None, buf)"
| "wait_ack_loop dec sid (Ack_error # rs) buf = (None, buf)"
| "wait_ack_loop dec sid (Ack_data d # rs) buf =
     (case try_decode_message dec (buf @ d) of
        None \<Rightarrow> wait_ack_loop dec sid rs (buf @ d)
      | Some (result, consumed) \<Rightarrow>
          ((case result of
              Inr (DetachAck ack_sid grid_snapshot) \<Rightarrow>
                if ack_sid = sid then grid_snapshot else None
            | Inr (ResumeAck ack_sid) \<Rightarrow> None
            | Inl err \<Rightarrow> None),
           drop consumed (buf @ d)))"

definition wait_for_detach_ack :: "env \<Rightarrow> fd \<Rightarrow> uuid \<Rightarrow> server \<Rightarrow> string option \<times> server" where
  "wait_for_detach_ack e owner_fd sid st =
     (case get_client st owner_fd of
        None \<Rightarrow> (None, st)
      | Some c \<Rightarrow>
          (case wait_ack_loop (e_dec_push_ack e) sid (e_ack_reads e) (c_read_buf c) of
             (snapshot, buf) \<Rightarrow> (snapshot, put_client owner_fd (c\<lparr>c_read_buf := buf\<rparr>) st)))"

definition force_complete_takeover :: "uuid \<Rightarrow> string option \<Rightarrow> server \<Rightarrow> response \<times> server" where
  "force_complete_takeover sid grid_snapshot st =
     (case get_session st sid of
        None \<Rightarrow> (Resp_Error (Session_not_found sid), st)
      | Some s \<Rightarrow>
          (Detached sid,
           emit [Kq_add (s_master_fd s)] (put_session sid (baton_detach grid_snapshot s) st)))"

definition handle_baton_takeover :: "env \<Rightarrow> uuid \<Rightarrow> server \<Rightarrow> response \<times> server" where
  "handle_baton_takeover e sid st =
     (case get_session st sid of
        None \<Rightarrow> (Resp_Error (Session_not_found sid), st)
      | Some s \<Rightarrow>
          if s_state s \<noteq> Attached then handle_detach sid 0 0 None st
          else
            (case s_owner_fd s of
               None \<Rightarrow> handle_detach sid 0 0 None st
             | Some owner_fd \<Rightarrow>
                 let (send_ok, st) =
                   (case get_client st owner_fd of
                      None \<Rightarrow> (False, st)
                    | Some c \<Rightarrow> (e_write_ok e owner_fd,
                                 emit [Sock_push owner_fd (ForceDetach sid)] st))
                 in if \<not> send_ok then force_complete_takeover sid None st
                    else (case wait_for_detach_ack e owner_fd sid st of
                            (grid_snapshot, st) \<Rightarrow> force_complete_takeover sid grid_snapshot st)))"

definition handle_baton_release :: "env \<Rightarrow> uuid \<Rightarrow> server \<Rightarrow> response \<times> server" where
  "handle_baton_release e sid st =
     (case get_session st sid of
        None \<Rightarrow> (Resp_Error (Session_not_found sid), st)
      | Some s \<Rightarrow>
          (case s_previous_owner_fd s of
             None \<Rightarrow> handle_detach sid 0 0 None st
           | Some prev_owner_fd \<Rightarrow>
               (case get_client st prev_owner_fd of
                  None \<Rightarrow>
                    handle_detach sid 0 0 None (put_session sid (s\<lparr>s_previous_owner_fd := None\<rparr>) st)
                | Some c \<Rightarrow>
                    let grid_snapshot = daemon_snapshot e s;
                        dup_fd = e_dup e (open_fds st) (s_master_fd s) in
                    if dup_fd < 0 then handle_detach sid 0 0 None st
                    else
                      let msg = ResumeAttach sid (ws_cols (s_winsize s)) (ws_rows (s_winsize s))
                                  (s_child_pid s) (s_shm_name s) grid_snapshot;
                          write_ok = e_write_ok e prev_owner_fd;
                          send_ok = (write_ok \<and> e_send_fd_ok e (c_stream c));
                          calls = [Fd_dup (s_master_fd s) dup_fd, Sock_push prev_owner_fd msg]
                                  @ (if write_ok then [Sock_send_fd (c_stream c) dup_fd] else [])
                                  @ [Fd_close dup_fd];
                          st = emit calls st in
                      if \<not> send_ok then
                        handle_detach sid 0 0 grid_snapshot
                          (put_session sid (s\<lparr>s_previous_owner_fd := None\<rparr>) st)
                      else
                        let s' = (session_attach (e_now e) prev_owner_fd s)
                                   \<lparr>s_previous_owner_fd := None, s_baton_release_at := Some (e_now e)\<rparr>
                        in (Detached sid,
                            put_session sid s' (emit [Kq_delete (s_master_fd s)] st)))))"

subsection \<open>Requests of WebSocket clients\<close>

definition in_cooldown :: "env \<Rightarrow> session \<Rightarrow> bool" where
  "in_cooldown e s =
     (case s_baton_release_at s of None \<Rightarrow> False | Some t \<Rightarrow> e_now e - t < baton_cooldown)"

definition dec_ws_count :: "session \<Rightarrow> session" where
  "dec_ws_count s =
     (if 0 < s_ws_client_count s then s\<lparr>s_ws_client_count := s_ws_client_count s - 1\<rparr> else s)"

definition handle_ws_detach :: "env \<Rightarrow> u64 \<Rightarrow> uuid \<Rightarrow> server \<Rightarrow> response \<times> server" where
  "handle_ws_detach e client_id sid st =
     (let st = (case get_session st sid of
                  None \<Rightarrow> st | Some s \<Rightarrow> put_session sid (dec_ws_count s) st);
          (is_eterm_attached, has_previous_owner, cooldown) =
            (case get_session st sid of
               None \<Rightarrow> (False, False, False)
             | Some s \<Rightarrow> (s_state s = Attached, s_previous_owner_fd s \<noteq> None, in_cooldown e s))
      in if is_eterm_attached \<and> \<not> cooldown then handle_baton_takeover e sid st
         else if is_eterm_attached \<and> cooldown then (Detached sid, st)
         else if has_previous_owner then handle_baton_release e sid st
         else handle_detach sid 0 0 None st)"

definition handle_ws_attach :: "env \<Rightarrow> u64 \<Rightarrow> uuid \<Rightarrow> server \<Rightarrow> (response \<times> server) res" where
  "handle_ws_attach e client_id sid st =
     (let is_attached = (case get_session st sid of None \<Rightarrow> False | Some s \<Rightarrow> s_state s = Attached);
          st = (if is_attached then snd (handle_baton_takeover e sid st) else st)
      in case get_session st sid of
           None \<Rightarrow> Inr (Resp_Error (Session_not_found sid), st)
         | Some s \<Rightarrow>
             if \<not> is_child_alive (e_alive e) s then Inr (Resp_Error (Child_dead sid), st)
             else
               let s1 = refresh_snapshot e s in
               bind_res (shm_dump (s_shared_ring s1) (s_ring_mem s1)) (\<lambda>ring_data.
                 let (grid_snapshot, s2) =
                       (if ring_data \<noteq> [] then (Some (e_b64_encode e ring_data), s1)
                        else (s_grid_snapshot s1, s1\<lparr>s_grid_snapshot := None\<rparr>));
                     calls = (if s_state s2 \<noteq> Attached then [Kq_add (s_master_fd s2)] else []);
                     s3 = s2\<lparr>s_ws_client_count := s_ws_client_count s2 + 1\<rparr>
                 in Inr (AttachReady sid (ws_cols (s_winsize s3)) (ws_rows (s_winsize s3))
                           (s_child_pid s3) (s_shm_name s3) grid_snapshot,
                         emit calls (put_session sid s3 st))))"

definition handle_ws_client_disconnect :: "env \<Rightarrow> u64 \<Rightarrow> server \<Rightarrow> server" where
  "handle_ws_client_disconnect e client_id st =
     (case map_of (client_sessions (sv_ws_shared st)) client_id of
        None \<Rightarrow> st
      | Some sid \<Rightarrow>
          let (should_release, st) =
                (case get_session st sid of
                   None \<Rightarrow> (False, st)
                 | Some s \<Rightarrow>
                     let s' = dec_ws_count s in
                     (s_ws_client_count s' = 0 \<and> s_previous_owner_fd s' \<noteq> None,
                      put_session sid s' st))
          in if should_release then snd (handle_baton_release e sid st) else st)"

subsection \<open>Dispatch\<close>

definition handle_request :: "env \<Rightarrow> fd \<Rightarrow> request \<Rightarrow> server \<Rightarrow> (response \<times> server) res" where
  "handle_request e client_fd req st =
     (case req of
        Req_Create shell cols rows working_dir terminal_id envs \<Rightarrow>
          handle_create e shell cols rows working_dir terminal_id envs st
      | Req_Attach sid \<Rightarrow> Inr (handle_attach e client_fd sid st)
      | Req_Detach sid cols rows snapshot \<Rightarrow> Inr (handle_detach sid cols rows snapshot st)
      | Req_List \<Rightarrow> Inr (handle_list e st, st)
      | Req_Kill sid \<Rightarrow> Inr (handle_kill e sid st)
      | Req_WinsizeUpdate sid cols rows \<Rightarrow> Inr (handle_winsize_update e sid cols rows st)
      | Req_Ping \<Rightarrow> Inr (Pong protocol_version (sm_count (sv_sessions st)), st)
      | Req_Shutdown \<Rightarrow> Inr (ShuttingDown, st\<lparr>sv_running := False\<rparr>)
      | Req_Input sid data \<Rightarrow> Inr (handle_remote_input e sid data st))"

datatype ws_command =
    Wc_request u64 request
  | Wc_disconnected u64
  | Wc_input uuid bytes

definition ws_request :: "env \<Rightarrow> u64 \<Rightarrow> request \<Rightarrow> server \<Rightarrow> (response \<times> server) res" where
  "ws_request e client_id req st =
     (case req of
        Req_Attach sid \<Rightarrow> handle_ws_attach e client_id sid st
      | Req_Detach sid cols rows snapshot \<Rightarrow> Inr (handle_ws_detach e client_id sid st)
      | other \<Rightarrow> handle_request e (-1) other st)"

definition handle_ws_command :: "env \<Rightarrow> ws_command \<Rightarrow> server \<Rightarrow> server res" where
  "handle_ws_command e cmd st =
     (case cmd of
        Wc_request client_id req \<Rightarrow>
          bind_res (ws_request e client_id req st) (\<lambda>(resp, st).
            Inr (st\<lparr>sv_ws_replies := sv_ws_replies st @ [(client_id, resp)]\<rparr>))
      | Wc_disconnected client_id \<Rightarrow> Inr (handle_ws_client_disconnect e client_id st)
      | Wc_input sid data \<Rightarrow> Inr (handle_ws_input e sid data st))"

end
