(* ===== verification/Server_Loop.thy ===== *)
theory Server_Loop
  imports Server_Handlers
begin

section \<open>The event loop (\<open>server.rs\<close>)\<close>

text \<open>
  What the kqueue loop does with each kind of event, and one turn of the loop. A handler that
  fails with an I/O error ends the loop with that error.
\<close>

subsection \<open>Connections\<close>

definition add_client :: "fd \<Rightarrow> server \<Rightarrow> server" where
  "add_client fd st =
     put_client fd \<lparr>c_stream = fd, c_read_buf = []\<rparr> (emit [Fd_open fd, Kq_add fd] st)"

fun accept_clients :: "(fd set \<Rightarrow> accept_result) list \<Rightarrow> server \<Rightarrow> bool \<times> server" where
  "accept_clients [] st = (True, st)"
| "accept_clients (r # rs) st =
     (case r (open_fds st) of
        Accept_would_block \<Rightarrow> (True, st)
      | Accept_error \<Rightarrow> (False, st)
      | Accepted fd \<Rightarrow> accept_clients rs (add_client fd st))"

text \<open>
  The requests in a client's buffer, one per turn. The first argument bounds the turns; the
  buffer's length plus one is enough, because every message takes at least four bytes. It also
  numbers the environments of the turns.
\<close>

definition answer :: "env \<Rightarrow> fd \<Rightarrow> string + request \<Rightarrow> server \<Rightarrow> (response \<times> server) res" where
  "answer e fd result st =
     (case result of
        Inr req \<Rightarrow> handle_request e fd req st
      | Inl err \<Rightarrow> Inr (Resp_Error (Parse_error err), st))"

definition send_response :: "fd \<Rightarrow> response \<Rightarrow> nat \<Rightarrow> server \<Rightarrow> server res" where
  "send_response fd resp consumed st =
     (case get_client st fd of
        None \<Rightarrow> Inr st
      | Some c \<Rightarrow>
          if length (c_read_buf c) < consumed then Inl Panic
          else Inr (put_client fd (c\<lparr>c_read_buf := drop consumed (c_read_buf c)\<rparr>)
                      (emit [Sock_write fd resp] st)))"

definition finish_attach :: "env \<Rightarrow> fd \<Rightarrow> response \<Rightarrow> server \<Rightarrow> server" where
  "finish_attach e fd resp st =
     (case resp of
        AttachReady sid cols rows child_pid shm_name snapshot \<Rightarrow>
          (case send_attach_data e fd sid st of
             (ok, st) \<Rightarrow> if ok then st else revert_attach sid st)
      | _ \<Rightarrow> st)"

fun client_loop :: "nat \<Rightarrow> (nat \<Rightarrow> env) \<Rightarrow> fd \<Rightarrow> server \<Rightarrow> server res" where
  "client_loop 0 E fd st = Inl Diverges"
| "client_loop (Suc n) E fd st =
     (case get_client st fd of
        None \<Rightarrow> Inl Panic
      | Some c \<Rightarrow>
          (case try_decode_message (e_dec_request (E n)) (c_read_buf c) of
             None \<Rightarrow> Inr st
           | Some (result, consumed) \<Rightarrow>
               bind_res (answer (E n) fd result st) (\<lambda>(resp, st).
               bind_res (send_response fd resp consumed st) (\<lambda>st.
               client_loop n E fd (finish_attach (E n) fd resp st)))))"

text \<open>\<open>handle_client_disconnect\<close>: removing the client closes its socket.\<close>

definition forget_previous_owner :: "fd \<Rightarrow> session \<Rightarrow> session" where
  "forget_previous_owner fd s =
     (if s_previous_owner_fd s = Some fd then s\<lparr>s_previous_owner_fd := None\<rparr> else s)"

definition crash_detach :: "uuid \<times> fd \<Rightarrow> server \<Rightarrow> server res" where
  "crash_detach p st =
     (let sid = fst p; master_fd = snd p; st = close_pending sid st in
      bind_res
        (case get_session st sid of
           None \<Rightarrow> Inr st
         | Some s \<Rightarrow>
             bind_res (shm_dump (s_shared_ring s) (s_ring_mem s)) (\<lambda>ring_data.
               let s1 = s\<lparr>s_terminal_state :=
                            map_option (ts_replay_history ring_data) (s_terminal_state s)\<rparr>
               in Inr (put_session sid (session_detach None s1) st)))
        (\<lambda>st. Inr (emit [Kq_add master_fd] st)))"

definition owned_by :: "fd \<Rightarrow> server \<Rightarrow> (uuid \<times> fd) list" where
  "owned_by fd st =
     map (\<lambda>s. (s_id s, s_master_fd s))
       (filter (\<lambda>s. s_owner_fd s = Some fd) (sm_list (sv_sessions st)))"

definition handle_client_disconnect :: "fd \<Rightarrow> server \<Rightarrow> server res" where
  "handle_client_disconnect fd st =
     (let st = emit [Kq_delete fd] st;
          closing = (case get_client st fd of None \<Rightarrow> [] | Some c \<Rightarrow> [Fd_close (c_stream c)]);
          st = emit closing (st\<lparr>sv_clients := AList.delete fd (sv_clients st)\<rparr>);
          st = st\<lparr>sv_sessions :=
                    map (\<lambda>(k, s). (k, forget_previous_owner fd s)) (sv_sessions st)\<rparr>
      in run_res (\<lambda>st p. crash_detach p st) st (owned_by fd st))"

definition handle_client_data :: "(nat \<Rightarrow> env) \<Rightarrow> sock_read \<Rightarrow> fd \<Rightarrow> server \<Rightarrow> (bool \<times> server) res" where
  "handle_client_data E r fd st =
     (case get_client st fd of
        None \<Rightarrow> Inr (True, st)
      | Some c \<Rightarrow>
          (case r of
             Sock_eof \<Rightarrow> bind_res (handle_client_disconnect fd st) (\<lambda>st. Inr (True, st))
           | Sock_would_block \<Rightarrow> Inr (True, st)
           | Sock_error \<Rightarrow> Inr (False, st)
           | Sock_data d \<Rightarrow>
               let buf = c_read_buf c @ d in
               bind_res (client_loop (Suc (length buf)) E fd
                           (put_client fd (c\<lparr>c_read_buf := buf\<rparr>) st))
                 (\<lambda>st. Inr (True, st))))"

subsection \<open>Children and PTY output\<close>

definition handle_child_exit :: "env \<Rightarrow> pid \<Rightarrow> server \<Rightarrow> server" where
  "handle_child_exit e pid st =
     (let st = emit [Wait_pid pid] st in
      case find_by_child_pid (sv_sessions st) pid of
        None \<Rightarrow> st
      | Some s \<Rightarrow>
          drop_session e (s_id s) (notify_ended (s_id s) (emit [Kq_delete (s_master_fd s)] st)))"

definition handle_session_output :: "env \<Rightarrow> pty_read \<Rightarrow> fd \<Rightarrow> server \<Rightarrow> server res" where
  "handle_session_output e r fd st =
     (case find_by_master_fd (sv_sessions st) fd of
        None \<Rightarrow> Inr st
      | Some found \<Rightarrow>
          let sid = s_id found in
          (case get_session st sid of
             None \<Rightarrow> Inr st
           | Some s \<Rightarrow>
               if s_state s = Attached then Inr st
               else
                 (case r of
                    Pty_data data \<Rightarrow>
                      bind_res (shm_write (s_shared_ring s) (s_ring_mem s) data) (\<lambda>mem.
                        let s1 = s\<lparr>s_ring_mem := mem,
                                   s_terminal_state := map_option (ts_feed data) (s_terminal_state s),
                                   s_last_active := e_now e\<rparr>;
                            sends = ws_broadcast sid data (sv_ws_shared st);
                            s2 = (if s_state s1 = Idle then promote_to_active (e_now e) s1 else s1)
                        in Inr (put_session sid s2 (st\<lparr>sv_ws_sent := sv_ws_sent st @ sends\<rparr>)))
                  | Pty_eof \<Rightarrow> Inr (drop_session e sid (emit [Kq_delete fd] st))
                  | Pty_would_block \<Rightarrow> Inr st
                  | Pty_error \<Rightarrow> Inr st)))"

subsection \<open>Maintenance at the head of the loop\<close>

definition reap_sessions :: "env \<Rightarrow> server \<Rightarrow> server" where
  "reap_sessions e st =
     (case reap_dead (e_alive e) (sv_sessions st) of
        (dead, m, calls) \<Rightarrow>
          fold (\<lambda>(sid, master_fd) st. notify_ended sid (emit [Kq_delete master_fd] st)) dead
            (emit calls (st\<lparr>sv_sessions := m\<rparr>)))"

text \<open>
  \<open>drain_ws_commands\<close>: the commands \<open>try_recv\<close> yields, each with its environment, and whether
  the channel turned out to be disconnected. A receiver that was disconnected is gone.
\<close>

definition drain_ws_commands :: "(env \<times> ws_command) list \<Rightarrow> bool \<Rightarrow> server \<Rightarrow> server res" where
  "drain_ws_commands cmds disconnected st =
     (if sv_ws_cmd_open st then
        run_res (\<lambda>st (e, cmd). handle_ws_command e cmd st)
          (if disconnected then st\<lparr>sv_ws_cmd_open := False\<rparr> else st) cmds
      else Inr st)"

text \<open>The idle check: the first component says whether the loop goes on to wait for events.\<close>

definition idle_check :: "instant \<Rightarrow> server \<Rightarrow> bool \<times> server" where
  "idle_check now st =
     (let ws_has_clients = (client_sessions (sv_ws_shared st) \<noteq> []) in
      if sm_count (sv_sessions st) = 0 \<and> sv_clients st = [] \<and> \<not> ws_has_clients then
        (case sv_idle_since st of
           Some since \<Rightarrow>
             if idle_timeout \<le> now - since then (False, st\<lparr>sv_running := False\<rparr>) else (True, st)
         | None \<Rightarrow> (True, st\<lparr>sv_idle_since := Some now\<rparr>))
      else (True, st\<lparr>sv_idle_since := None\<rparr>))"

subsection \<open>Events\<close>

datatype kev_filter = Filt_read | Filt_proc | Filt_signal

record kevent =
  ev_ident :: int
  ev_filter :: kev_filter
  ev_eof :: bool

datatype loop_ctl = Go_on | Break_events | Io_failed

definition ctl_of :: "bool \<times> server \<Rightarrow> loop_ctl \<times> server" where
  "ctl_of p = (if fst p then Go_on else Io_failed, snd p)"

definition dispatch_event :: "(nat \<Rightarrow> env) \<Rightarrow> kevent \<Rightarrow> server \<Rightarrow> (loop_ctl \<times> server) res" where
  "dispatch_event E ev st =
     (let fd = ev_ident ev; e = E 0;
          is_ws_pipe = (case sv_ws_wakeup_pipe st of None \<Rightarrow> False | Some (rfd, wfd) \<Rightarrow> fd = rfd)
      in if ev_filter ev = Filt_signal then Inr (Break_events, st\<lparr>sv_running := False\<rparr>)
         else if is_ws_pipe then Inr (Go_on, st)
         else if fd = sv_listener_fd st then Inr (ctl_of (accept_clients (e_accepts e) st))
         else if get_client st fd \<noteq> None then
           (if ev_eof ev then
              bind_res (handle_client_disconnect fd st) (\<lambda>st. Inr (Go_on, st))
            else
              bind_res (handle_client_data E (e_sock_read e) fd st) (\<lambda>p. Inr (ctl_of p)))
         else if ev_filter ev = Filt_proc then Inr (Go_on, handle_child_exit e fd st)
         else bind_res (handle_session_output e (e_pty_read e) fd st) (\<lambda>st. Inr (Go_on, st)))"

fun dispatch_events :: "((nat \<Rightarrow> env) \<times> kevent) list \<Rightarrow> server \<Rightarrow> (bool \<times> server) res" where
  "dispatch_events [] st = Inr (True, st)"
| "dispatch_events ((E, ev) # evs) st =
     bind_res (dispatch_event E ev st) (\<lambda>(ctl, st).
       case ctl of
         Go_on \<Rightarrow> dispatch_events evs st
       | Break_events \<Rightarrow> Inr (True, st)
       | Io_failed \<Rightarrow> Inr (False, st))"

text \<open>What \<open>kevent\<close> returned: events, an interrupted call, or another error.\<close>

datatype kevent_result = Kev_events "((nat \<Rightarrow> env) \<times> kevent) list" | Kev_interrupted | Kev_error

text \<open>One turn of \<open>while self.running\<close>; \<open>False\<close> is the return with an error.\<close>

definition loop_turn ::
  "env \<Rightarrow> (env \<times> ws_command) list \<Rightarrow> bool \<Rightarrow> kevent_result \<Rightarrow> server \<Rightarrow> (bool \<times> server) res" where
  "loop_turn e cmds disconnected result st =
     bind_res (drain_ws_commands cmds disconnected (reap_sessions e st)) (\<lambda>st.
       case idle_check (e_now e) st of
         (go, st) \<Rightarrow>
           if \<not> go then Inr (True, st)
           else (case result of
                   Kev_events evs \<Rightarrow> dispatch_events evs st
                 | Kev_interrupted \<Rightarrow> Inr (True, st)
                 | Kev_error \<Rightarrow> Inr (False, st)))"

subsection \<open>Shutdown\<close>

definition kill_session :: "env \<Rightarrow> uuid \<Rightarrow> server \<Rightarrow> server" where
  "kill_session e sid st =
     (case sm_remove sid (sv_sessions st) of
        (None, m) \<Rightarrow> st
      | (Some s, m) \<Rightarrow>
          (case session_cleanup (e_alive e) s of
             (s', calls) \<Rightarrow> emit (calls @ session_drop (e_alive e) s') (st\<lparr>sv_sessions := m\<rparr>)))"

definition server_cleanup :: "env \<Rightarrow> server \<Rightarrow> server" where
  "server_cleanup e st =
     (let st = fold notify_ended (map fst (subscribers (sv_ws_shared st))) st;
          st = fold (kill_session e) (map s_id (sm_list (sv_sessions st))) st;
          st = emit (map (\<lambda>(sid, fd). Fd_close fd) (sv_pending_dup_fds st))
                 (st\<lparr>sv_pending_dup_fds := []\<rparr>);
          st = (case sv_ws_wakeup_pipe st of
                  None \<Rightarrow> st
                | Some (rfd, wfd) \<Rightarrow>
                    emit [Fd_close rfd, Fd_close wfd] (st\<lparr>sv_ws_wakeup_pipe := None\<rparr>))
      in emit [File_remove (sv_socket_path st)] st)"

end
