(* ===== verification/Ws_Conn.thy ===== *)
theory Ws_Conn
  imports Server_Loop
begin

section \<open>The connection of a WebSocket client (\<open>ws_server.rs\<close>)\<close>

text \<open>
  The task that serves one connection: a state machine that reacts to frames of the client, to
  events of its subscription and to the reply of the main loop it is waiting for. It changes
  the shared subscriptions under their lock, sends commands to the main loop and frames to the
  client. The task is single: while it waits for a reply it takes no other input.
\<close>

datatype ws_frame =
    Frame_binary bytes
  | Frame_text string
  | Frame_ping bytes
  | Frame_other
  | Frame_close
  | Frame_error

datatype ws_out =
    Out_binary bytes
  | Out_session_ended uuid
  | Out_response response
  | Out_pong bytes

text \<open>Waiting for the reply to a shutdown, or to another request (an attach or not).\<close>

datatype conn_phase = Serving | Awaiting_shutdown | Awaiting bool | Closed

record ws_conn =
  wc_id :: u64
  wc_attached :: "uuid option"
  wc_rx :: "nat option"
  wc_phase :: conn_phase

type_synonym conn_result = "ws_conn \<times> ws_shared \<times> ws_command list \<times> ws_out list"

definition conn_new :: "ws_shared \<Rightarrow> ws_conn \<times> ws_shared" where
  "conn_new w =
     (case ws_next_client_id w of (cid, w) \<Rightarrow>
        (\<lparr>wc_id = cid, wc_attached = None, wc_rx = None, wc_phase = Serving\<rparr>, w))"

text \<open>The end of \<open>handle_ws_connection\<close>: unsubscribe, then tell the main loop.\<close>

definition unsubscribe_attached :: "ws_conn \<Rightarrow> ws_shared \<Rightarrow> ws_shared" where
  "unsubscribe_attached c w =
     (case wc_attached c of None \<Rightarrow> w | Some sid \<Rightarrow> ws_unsubscribe sid (wc_id c) w)"

definition conn_close :: "ws_conn \<Rightarrow> ws_shared \<Rightarrow> ws_out list \<Rightarrow> conn_result" where
  "conn_close c w outs =
     (c\<lparr>wc_phase := Closed\<rparr>, unsubscribe_attached c w, [Wc_disconnected (wc_id c)], outs)"

text \<open>\<open>handle_text_message\<close> up to the point where it waits for the reply.\<close>

definition detach_first :: "request \<Rightarrow> ws_conn \<Rightarrow> ws_shared \<Rightarrow> ws_conn \<times> ws_shared" where
  "detach_first req c w =
     (case req of
        Req_Detach sid cols rows snapshot \<Rightarrow>
          if wc_attached c = Some sid
          then (c\<lparr>wc_attached := None, wc_rx := None\<rparr>, ws_unsubscribe sid (wc_id c) w)
          else (c, w)
      | _ \<Rightarrow> (c, w))"

definition is_attach_req :: "request \<Rightarrow> bool" where
  "is_attach_req req = (case req of Req_Attach sid \<Rightarrow> True | _ \<Rightarrow> False)"

definition conn_text :: "(string \<Rightarrow> string + request) \<Rightarrow> string \<Rightarrow> ws_conn \<Rightarrow> ws_shared \<Rightarrow> conn_result" where
  "conn_text from_str text c w =
     (case from_str text of
        Inl err \<Rightarrow> (c, w, [], [Out_response (Resp_Error (Parse_error err))])
      | Inr req \<Rightarrow>
          if req = Req_Shutdown then
            (c\<lparr>wc_phase := Awaiting_shutdown\<rparr>, w, [Wc_request (wc_id c) req], [])
          else
            (case detach_first req c w of (c, w) \<Rightarrow>
               (c\<lparr>wc_phase := Awaiting (is_attach_req req)\<rparr>, w, [Wc_request (wc_id c) req], [])))"

text \<open>A frame from the client; outside the attached mode binary frames are ignored.\<close>

definition conn_frame :: "(string \<Rightarrow> string + request) \<Rightarrow> ws_frame \<Rightarrow> ws_conn \<Rightarrow> ws_shared \<Rightarrow> conn_result" where
  "conn_frame from_str f c w =
     (case f of
        Frame_binary data \<Rightarrow>
          (c, w,
           (if wc_rx c \<noteq> None then
              (case wc_attached c of None \<Rightarrow> [] | Some sid \<Rightarrow> [Wc_input sid data])
            else []), [])
      | Frame_text text \<Rightarrow> conn_text from_str text c w
      | Frame_ping data \<Rightarrow> (c, w, [], [Out_pong data])
      | Frame_other \<Rightarrow> (c, w, [], [])
      | Frame_close \<Rightarrow> conn_close c w []
      | Frame_error \<Rightarrow> conn_close c w [])"

text \<open>
  What the subscription's channel yields (\<open>None\<close>: it is closed); \<open>write_ok\<close> is whether the
  client still takes frames. The session id is unwrapped, which panics when there is none.
\<close>

definition conn_event :: "bool \<Rightarrow> ws_event option \<Rightarrow> ws_conn \<Rightarrow> ws_shared \<Rightarrow> conn_result res" where
  "conn_event write_ok ev c w =
     (case ev of
        Some (Pty_output data) \<Rightarrow>
          Inr (if write_ok then (c, w, [], [Out_binary data]) else conn_close c w [])
      | Some Session_ended \<Rightarrow>
          (case wc_attached c of
             None \<Rightarrow> Inl Panic
           | Some sid \<Rightarrow>
               Inr (c\<lparr>wc_attached := None, wc_rx := None\<rparr>, unsubscribe_attached c w, [],
                    if write_ok then [Out_session_ended sid] else []))
      | None \<Rightarrow> Inr (conn_close c w []))"

text \<open>The reply arrives, or its channel is dropped (\<open>None\<close>).\<close>

definition conn_reply :: "response option \<Rightarrow> ws_conn \<Rightarrow> ws_shared \<Rightarrow> conn_result" where
  "conn_reply reply c w =
     (case wc_phase c of
        Awaiting_shutdown \<Rightarrow>
          conn_close c w (case reply of None \<Rightarrow> [] | Some r \<Rightarrow> [Out_response r])
      | Awaiting is_attach \<Rightarrow>
          let resp = (case reply of None \<Rightarrow> Resp_Error No_response | Some r \<Rightarrow> r);
              c = c\<lparr>wc_phase := Serving\<rparr>;
              (c, w) =
                (if is_attach then
                   (case resp of
                      AttachReady sid cols rows pid name snapshot \<Rightarrow>
                        (case ws_subscribe sid (wc_id c) w of (ch, w) \<Rightarrow>
                           (c\<lparr>wc_attached := Some sid, wc_rx := Some ch\<rparr>, w))
                    | _ \<Rightarrow> (c, w))
                 else (c, w))
          in (c, w, [], [Out_response resp])
      | _ \<Rightarrow> (c, w, [], []))"

end
