(* ===== verification/Kernel_Tables.thy ===== *)
theory Kernel_Tables
  imports Server_Loop
begin

section \<open>What the server's system calls do to the kernel's tables\<close>

text \<open>
  The kernel keeps the descriptors the process has open and those registered for reading. A
  trace of calls runs on these two sets. Using a descriptor that is not open, and opening one
  that is, is an error (\<open>None\<close>): a trace that runs never closes a descriptor twice and never
  uses one after closing it. Unregistering is the exception, because the code ignores its
  errors and unregisters descriptors it has just closed.
\<close>

type_synonym kern = "fd set \<times> fd set"

fun kern_step :: "kern \<Rightarrow> sys_call \<Rightarrow> kern option" where
  "kern_step (op, w) (Fd_open fd) = (if fd \<in> op then None else Some (insert fd op, w))"
| "kern_step (op, w) (Fd_dup fd fd') =
     (if fd \<in> op \<and> fd' \<notin> op then Some (insert fd' op, w) else None)"
| "kern_step (op, w) (Fd_close fd) = (if fd \<in> op then Some (op - {fd}, w - {fd}) else None)"
| "kern_step (op, w) (Kq_add fd) = (if fd \<in> op then Some (op, insert fd w) else None)"
| "kern_step (op, w) (Kq_delete fd) = Some (op, w - {fd})"
| "kern_step (op, w) (Sock_write fd r) = (if fd \<in> op then Some (op, w) else None)"
| "kern_step (op, w) (Sock_push fd p) = (if fd \<in> op then Some (op, w) else None)"
| "kern_step (op, w) (Sock_send_fd fd fd') =
     (if fd \<in> op \<and> fd' \<in> op then Some (op, w) else None)"
| "kern_step (op, w) (Pty_write fd d) = (if fd \<in> op then Some (op, w) else None)"
| "kern_step (op, w) (Pty_set_winsize fd c r) = (if fd \<in> op then Some (op, w) else None)"
| "kern_step (op, w) (Kq_proc p) = Some (op, w)"
| "kern_step (op, w) (Sig_kill p s) = Some (op, w)"
| "kern_step (op, w) (Wait_pid p) = Some (op, w)"
| "kern_step (op, w) (Shm_sys c) = Some (op, w)"
| "kern_step (op, w) (File_write p d) = Some (op, w)"
| "kern_step (op, w) (File_remove p) = Some (op, w)"

fun kern_run :: "kern \<Rightarrow> sys_call list \<Rightarrow> kern option" where
  "kern_run k [] = Some k"
| "kern_run k (c # cs) = (case kern_step k c of None \<Rightarrow> None | Some k' \<Rightarrow> kern_run k' cs)"

lemma kern_run_append:
  "kern_run k (cs @ ds) = (case kern_run k cs of None \<Rightarrow> None | Some k' \<Rightarrow> kern_run k' ds)"
  by (induction cs arbitrary: k) (auto split: option.splits)

lemma kern_run_quiet:
  "(\<And>c. c \<in> set cs \<Longrightarrow> kern_step k c = Some k) \<Longrightarrow> kern_run k cs = Some k"
  by (induction cs) auto

lemma kern_run_shm [simp]: "kern_run k (map Shm_sys cs) = Some k"
  by (rule kern_run_quiet) (cases k, auto)

subsection \<open>The small steps on the state\<close>

named_theorems server_simps

lemma emit_commute [server_simps]:
  "put_session sid s (emit cs st) = emit cs (put_session sid s st)"
  "put_client fd c (emit cs st) = emit cs (put_client fd c st)"
  "emit ds (emit cs st) = emit (cs @ ds) st"
  by (simp_all add: emit_def put_session_def put_client_def)

lemma get_session_simps [server_simps]:
  "get_session (put_session sid s st) sid' = (if sid' = sid then Some s else get_session st sid')"
  "get_session (emit calls st) sid = get_session st sid"
  "get_session (put_client fd c st) sid = get_session st sid"
  by (simp_all add: get_session_def put_session_def put_client_def emit_def sm.look_ins_if)

lemma get_client_simps [server_simps]:
  "get_client (put_client fd c st) fd' = (if fd' = fd then Some c else get_client st fd')"
  "get_client (emit calls st) fd = get_client st fd"
  "get_client (put_session sid s st) fd = get_client st fd"
  by (simp_all add: get_client_def put_client_def emit_def put_session_def alist.look_ins_if)

lemma pending_simps [server_simps]:
  "sv_pending_dup_fds (put_session sid s st) = sv_pending_dup_fds st"
  "sv_pending_dup_fds (put_client fd c st) = sv_pending_dup_fds st"
  "sv_pending_dup_fds (emit calls st) = sv_pending_dup_fds st"
  by (simp_all add: put_session_def put_client_def emit_def)

lemma map_update_existing:
  "map_of xs k = Some v \<Longrightarrow> f v' = f v \<Longrightarrow> map (\<lambda>p. f (snd p)) (AList.update k v' xs) = map (\<lambda>p. f (snd p)) xs"
  by (induction xs) auto

lemma map_fst_update_existing:
  "map_of xs k = Some v \<Longrightarrow> map fst (AList.update k v' xs) = map fst xs"
  by (induction xs) auto

lemma fd_list_simps [server_simps]:
  "fd_list (emit calls st) = fd_list st"
  "get_session st sid = Some s \<Longrightarrow> s_master_fd s' = s_master_fd s \<Longrightarrow>
     fd_list (put_session sid s' st) = fd_list st"
  "get_client st fd = Some c \<Longrightarrow> fd_list (put_client fd c' st) = fd_list st"
  by (simp_all add: fd_list_def emit_def put_session_def put_client_def get_session_def get_client_def
      sm_get_def sm_put_def map_update_existing map_fst_update_existing)

lemma open_fds_simps [server_simps]:
  "open_fds (emit calls st) = open_fds st"
  "get_session st sid = Some s \<Longrightarrow> s_master_fd s' = s_master_fd s \<Longrightarrow>
     open_fds (put_session sid s' st) = open_fds st"
  "get_client st fd = Some c \<Longrightarrow> open_fds (put_client fd c' st) = open_fds st"
  by (simp_all add: open_fds_def server_simps)

lemma listener_simps [server_simps]:
  "sv_listener_fd (put_session sid s st) = sv_listener_fd st"
  "sv_listener_fd (put_client fd c st) = sv_listener_fd st"
  "sv_listener_fd (emit calls st) = sv_listener_fd st"
  "sv_ws_wakeup_pipe (put_session sid s st) = sv_ws_wakeup_pipe st"
  "sv_ws_wakeup_pipe (put_client fd c st) = sv_ws_wakeup_pipe st"
  "sv_ws_wakeup_pipe (emit calls st) = sv_ws_wakeup_pipe st"
  by (simp_all add: put_session_def put_client_def emit_def)

lemma get_sessionD: "get_session st sid = Some s \<Longrightarrow> (sid, s) \<in> set (sv_sessions st)"
  by (simp add: get_session_def sm_get_def map_of_SomeD)

lemma get_clientD: "get_client st fd = Some c \<Longrightarrow> (fd, c) \<in> set (sv_clients st)"
  by (simp add: get_client_def map_of_SomeD)

lemma mem_fd_list:
  "fd \<in> set (fd_list st) \<longleftrightarrow> fd \<in> set (new_fds (sv_listener_fd st) (sv_ws_wakeup_pipe st)) \<or>
     fd \<in> fst ` set (sv_clients st) \<or> fd \<in> (\<lambda>p. s_master_fd (snd p)) ` set (sv_sessions st) \<or>
     fd \<in> snd ` set (sv_pending_dup_fds st)"
  by (simp add: fd_list_def)

lemma open_fdsI:
  "get_session st sid = Some s \<Longrightarrow> s_master_fd s \<in> open_fds st"
  "get_client st fd = Some c \<Longrightarrow> fd \<in> open_fds st"
  "(sid, d) \<in> set (sv_pending_dup_fds st) \<Longrightarrow> d \<in> open_fds st"
  unfolding open_fds_def mem_fd_list by (force dest: get_sessionD get_clientD)+

subsection \<open>The descriptors the event loop watches\<close>

definition watch_set :: "server \<Rightarrow> fd set" where
  "watch_set st =
     insert (sv_listener_fd st)
       ((case sv_ws_wakeup_pipe st of None \<Rightarrow> {} | Some (rfd, wfd) \<Rightarrow> {rfd})
        \<union> {fd. get_client st fd \<noteq> None}
        \<union> {s_master_fd s | sid s. get_session st sid = Some s \<and> s_state s \<noteq> Attached})"

lemma watch_set_emit [server_simps]: "watch_set (emit calls st) = watch_set st"
  by (simp add: watch_set_def server_simps)

lemma watch_set_put_client [server_simps]:
  "get_client st fd = Some c \<Longrightarrow> watch_set (put_client fd c' st) = watch_set st"
proof -
  assume "get_client st fd = Some c"
  then have "{fd'. get_client (put_client fd c' st) fd' \<noteq> None} = {fd'. get_client st fd' \<noteq> None}"
    by (auto simp: server_simps)
  then show ?thesis by (simp add: watch_set_def server_simps)
qed

subsection \<open>The invariant\<close>

text \<open>
  A session is attached exactly when it has an owner, and owners and previous owners are
  connected clients; no descriptor has two uses; and the kernel's tables are what the state
  says: the open descriptors are those the state names, and the loop watches the listener, the
  wake-up pipe, the clients and the PTYs of the sessions that are not attached.
\<close>

definition session_ok :: "server \<Rightarrow> session \<Rightarrow> bool" where
  "session_ok st s \<longleftrightarrow>
     (s_state s = Attached \<longleftrightarrow> s_owner_fd s \<noteq> None) \<and>
     (\<forall>c. s_owner_fd s = Some c \<longrightarrow> get_client st c \<noteq> None) \<and>
     (\<forall>c. s_previous_owner_fd s = Some c \<longrightarrow> get_client st c \<noteq> None)"

definition sv_wf :: "server \<Rightarrow> bool" where
  "sv_wf st \<longleftrightarrow>
     distinct (map fst (sv_sessions st)) \<and> distinct (fd_list st) \<and>
     (\<forall>fd c. get_client st fd = Some c \<longrightarrow> c_stream c = fd) \<and>
     (\<forall>sid s. get_session st sid = Some s \<longrightarrow> s_id s = sid \<and> session_ok st s \<and> 0 \<le> s_master_fd s)"

definition kernel_agrees :: "server \<Rightarrow> bool" where
  "kernel_agrees st \<longleftrightarrow> kern_run ({}, {}) (sv_trace st) = Some (open_fds st, watch_set st)"

definition sv_core :: "server \<Rightarrow> bool" where
  "sv_core st \<longleftrightarrow> sv_wf st \<and> kernel_agrees st"

definition sv_inv :: "server \<Rightarrow> bool" where
  "sv_inv st \<longleftrightarrow> sv_core st \<and> sv_pending_dup_fds st = []"

lemma fd_list_disjoint:
  assumes "distinct (fd_list st)" "(sid, s) \<in> set (sv_sessions st)"
  shows "s_master_fd s \<notin> set (new_fds (sv_listener_fd st) (sv_ws_wakeup_pipe st))"
    and "s_master_fd s \<notin> fst ` set (sv_clients st)"
    and "s_master_fd s \<notin> snd ` set (sv_pending_dup_fds st)"
proof -
  let ?N = "new_fds (sv_listener_fd st) (sv_ws_wakeup_pipe st)"
  let ?C = "map fst (sv_clients st)" and ?P = "map snd (sv_pending_dup_fds st)"
  let ?M = "map (\<lambda>p. s_master_fd (snd p)) (sv_sessions st)"
  have "distinct (?N @ ?C @ ?M @ ?P)" using assms(1) by (simp only: fd_list_def)
  then have dist: "set ?N \<inter> set ?M = {}" "set ?C \<inter> set ?M = {}" "set ?M \<inter> set ?P = {}"
    unfolding distinct_append set_append by blast+
  have "s_master_fd s \<in> set ?M" using assms(2) by force
  with dist show "s_master_fd s \<notin> set ?N" "s_master_fd s \<notin> fst ` set (sv_clients st)"
      "s_master_fd s \<notin> snd ` set (sv_pending_dup_fds st)"
    unfolding set_map by blast+
qed

lemma fd_list_master_inj:
  assumes "distinct (fd_list st)" "(sid, s) \<in> set (sv_sessions st)" "(sid', s') \<in> set (sv_sessions st)"
    and "s_master_fd s' = s_master_fd s"
  shows "(sid', s') = (sid, s)"
proof -
  have "inj_on (\<lambda>p. s_master_fd (snd p)) (set (sv_sessions st))"
    using assms(1) by (simp add: fd_list_def distinct_map)
  from inj_onD [OF this, of "(sid', s')" "(sid, s)"] assms show ?thesis by simp
qed

lemma sv_wf_fds: "sv_wf st \<Longrightarrow> distinct (fd_list st)"
  by (simp add: sv_wf_def)

lemma sv_wf_masters:
  assumes dist: "distinct (fd_list st)" "get_session st sid = Some s"
  shows "get_client st (s_master_fd s) = None"
    and "get_session st sid' = Some s' \<Longrightarrow> s_master_fd s' = s_master_fd s \<Longrightarrow> sid' = sid"
    and "s_master_fd s \<notin> set (new_fds (sv_listener_fd st) (sv_ws_wakeup_pipe st))"
    and "s_master_fd s \<notin> snd ` set (sv_pending_dup_fds st)"
proof -
  note mem = get_sessionD [OF dist(2)]
  show "get_client st (s_master_fd s) = None"
    using fd_list_disjoint(2) [OF dist(1) mem] by (simp add: get_client_def map_of_eq_None_iff)
  show "s_master_fd s \<notin> set (new_fds (sv_listener_fd st) (sv_ws_wakeup_pipe st))"
      "s_master_fd s \<notin> snd ` set (sv_pending_dup_fds st)"
    using fd_list_disjoint(1,3) [OF dist(1) mem] by auto
  show "sid' = sid" if "get_session st sid' = Some s'" "s_master_fd s' = s_master_fd s"
    using fd_list_master_inj [OF dist(1) mem get_sessionD [OF that(1)] that(2)] by simp
qed

lemma sv_coreD:
  assumes "sv_core st" "get_session st sid = Some s"
  shows "s_id s = sid" "session_ok st s" "0 \<le> s_master_fd s" "get_client st (s_master_fd s) = None"
    and "s_master_fd s \<in> open_fds st"
    and "s_master_fd s \<in> watch_set st \<longleftrightarrow> s_state s \<noteq> Attached"
proof -
  from assms(1) have wf: "sv_wf st" by (simp add: sv_core_def)
  from wf assms(2) show "s_id s = sid" "session_ok st s" "0 \<le> s_master_fd s"
    by (auto simp: sv_wf_def)
  note m = sv_wf_masters [OF sv_wf_fds [OF wf] assms(2)]
  show "get_client st (s_master_fd s) = None" by (rule m(1))
  show "s_master_fd s \<in> open_fds st" using assms(2) by (rule open_fdsI)
  have out: "s_master_fd s \<noteq> sv_listener_fd st"
      "s_master_fd s \<notin> (case sv_ws_wakeup_pipe st of None \<Rightarrow> {} | Some (rfd, wfd) \<Rightarrow> {rfd})"
    using m(3) by (auto simp: new_fds_def split: option.splits)
  have "(\<exists>sid' s'. get_session st sid' = Some s' \<and> s_state s' \<noteq> Attached \<and>
      s_master_fd s' = s_master_fd s) \<longleftrightarrow> s_state s \<noteq> Attached"
    using m(2) assms(2) by (metis option.inject)
  then show "s_master_fd s \<in> watch_set st \<longleftrightarrow> s_state s \<noteq> Attached"
    using m(1) out unfolding watch_set_def by (simp add: eq_commute) blast
qed

end
