(* ===== verification/Server_Inv.thy ===== *)
theory Server_Inv
  imports Kernel_Tables "HOL-Library.Multiset"
begin

section \<open>Every handler keeps the invariant of the server\<close>

text \<open>
  The lemmas that the preservation proofs share (a change of one session with its calls, a step
  that the invariant does not read, the contract assumed of the kernel), and preservation for
  the handlers of requests.
\<close>

subsection \<open>Changing one session\<close>

definition base_watch :: "server \<Rightarrow> fd set" where
  "base_watch st =
     insert (sv_listener_fd st)
       ((case sv_ws_wakeup_pipe st of None \<Rightarrow> {} | Some (rfd, wfd) \<Rightarrow> {rfd})
        \<union> {fd. get_client st fd \<noteq> None})"

definition session_watch :: "server \<Rightarrow> fd set" where
  "session_watch st = {s_master_fd s | sid s. get_session st sid = Some s \<and> s_state s \<noteq> Attached}"

lemma watch_set_split: "watch_set st = base_watch st \<union> session_watch st"
  by (simp add: watch_set_def base_watch_def session_watch_def Un_assoc)

lemma master_not_base:
  assumes "distinct (fd_list st)" "get_session st sid = Some s"
  shows "s_master_fd s \<notin> base_watch st"
  using sv_wf_masters(1,3) [OF assms]
  by (auto simp: base_watch_def new_fds_def split: option.splits)

lemma UN_split: "(\<Union>k. f k) = f a \<union> (\<Union>k \<in> - {a}. f k)"
  by auto

lemma session_watch_UN:
  "session_watch st = (\<Union>k. {s_master_fd t | t. get_session st k = Some t \<and> s_state t \<noteq> Attached})"
  unfolding session_watch_def by blast

lemma watch_set_put_session:
  assumes wf: "distinct (fd_list st)" and s: "get_session st sid = Some s" and m: "s_master_fd s' = s_master_fd s"
  shows "watch_set (put_session sid s' st) =
     (if s_state s' = Attached then watch_set st - {s_master_fd s}
      else insert (s_master_fd s) (watch_set st))"
proof -
  let ?V = "\<lambda>st k. {s_master_fd t | t. get_session st k = Some t \<and> s_state t \<noteq> Attached}"
  have split: "session_watch st' = ?V st' sid \<union> (\<Union>k \<in> - {sid}. ?V st' k)" for st'
    by (subst session_watch_UN) (rule UN_split)
  have others: "?V (put_session sid s' st) k = ?V st k" if "k \<noteq> sid" for k
    using that by (simp add: server_simps)
  have "s_master_fd s \<notin> ?V st k" if "k \<noteq> sid" for k
    using sv_wf_masters(2) [OF wf s] that by fastforce
  moreover have "?V (put_session sid s' st) sid = (if s_state s' = Attached then {} else {s_master_fd s})"
      "?V st sid = (if s_state s = Attached then {} else {s_master_fd s})"
    using s m by (auto simp: server_simps)
  ultimately have "session_watch (put_session sid s' st) =
      (if s_state s' = Attached then session_watch st - {s_master_fd s}
       else insert (s_master_fd s) (session_watch st))"
    unfolding split using others by auto
  moreover have "base_watch (put_session sid s' st) = base_watch st"
    by (simp add: base_watch_def server_simps)
  ultimately show ?thesis
    using master_not_base [OF wf s] by (auto simp: watch_set_split)
qed

lemma session_ok_simps [server_simps]:
  "session_ok (emit calls st) s = session_ok st s"
  "session_ok (put_session sid s' st) s = session_ok st s"
  by (simp_all add: session_ok_def server_simps)

lemma session_ok_put_client [server_simps]:
  "get_client st fd = Some c \<Longrightarrow> session_ok (put_client fd c' st) s = session_ok st s"
  by (auto simp: session_ok_def server_simps)

lemma sv_wf_emit [server_simps]: "sv_wf (emit calls st) = sv_wf st"
  by (simp add: sv_wf_def server_simps) (simp add: emit_def)

lemma sv_wf_put_session:
  assumes wf: "sv_wf st" and s: "get_session st sid = Some s"
    and same: "s_id s' = s_id s" "s_master_fd s' = s_master_fd s" and ok: "session_ok st s'"
  shows "sv_wf (put_session sid s' st)"
proof -
  have "distinct (map fst (sv_sessions (put_session sid s' st)))"
    using wf by (simp add: sv_wf_def put_session_def sm_put_def AList.distinct_update)
  with wf s same ok show ?thesis
    by (auto simp: sv_wf_def server_simps)
qed

lemma sv_wf_put_client:
  assumes "sv_wf st" "get_client st fd = Some c" "c_stream c' = c_stream c"
  shows "sv_wf (put_client fd c' st)"
proof -
  have "sv_sessions (put_client fd c' st) = sv_sessions st" by (simp add: put_client_def)
  with assms show ?thesis by (auto simp: sv_wf_def server_simps)
qed

lemma kernel_agrees_emit:
  "kernel_agrees st \<Longrightarrow> kernel_agrees (emit calls st') \<longleftrightarrow>
     kern_run (open_fds st, watch_set st) calls = Some (open_fds st', watch_set st')"
  if "sv_trace st' = sv_trace st"
  using that
  by (simp add: kernel_agrees_def server_simps) (simp add: emit_def kern_run_append)

lemma trace_simps [simp]:
  "sv_trace (put_session sid s st) = sv_trace st" "sv_trace (put_client fd c st) = sv_trace st"
  by (simp_all add: put_session_def put_client_def)

lemma emit_Nil [simp]: "emit [] st = st"
  by (simp add: emit_def)

text \<open>
  One session changes, with calls that register or unregister its PTY as its new state asks.
\<close>

lemma sv_core_put:
  assumes core: "sv_core st" and s: "get_session st sid = Some s"
    and same: "s_id s' = s_id s" "s_master_fd s' = s_master_fd s" and ok: "session_ok st s'"
    and calls: "kern_run (open_fds st, watch_set st) calls =
      Some (open_fds st, if s_state s' = Attached then watch_set st - {s_master_fd s}
                         else insert (s_master_fd s) (watch_set st))"
  shows "sv_core (emit calls (put_session sid s' st))"
proof -
  from core have wf: "sv_wf st" and ka: "kernel_agrees st" by (simp_all add: sv_core_def)
  have "kernel_agrees (emit calls (put_session sid s' st))"
    using calls s same(2)
    by (simp add: kernel_agrees_emit [OF _ ka] watch_set_put_session [OF sv_wf_fds [OF wf] s same(2)] server_simps)
  with sv_wf_put_session [OF wf s same ok] show ?thesis
    by (simp add: sv_core_def server_simps)
qed

lemma sv_core_put_same:
  assumes "sv_core st" "get_session st sid = Some s" "s_id s' = s_id s" "s_master_fd s' = s_master_fd s"
    "session_ok st s'" "s_state s' = Attached \<longleftrightarrow> s_state s = Attached"
  shows "sv_core (put_session sid s' st)"
proof -
  have "sv_core (emit [] (put_session sid s' st))"
    using assms sv_coreD(6) [OF assms(1,2)] by (intro sv_core_put [OF assms(1-5)]) auto
  then show ?thesis by simp
qed

lemma sv_core_emit:
  assumes "sv_core st"
    and "kern_run (open_fds st, watch_set st) calls = Some (open_fds st, watch_set st)"
  shows "sv_core (emit calls st)"
  using assms by (simp add: sv_core_def kernel_agrees_emit [of st st] server_simps)

lemma sv_core_put_client:
  assumes "sv_core st" "get_client st fd = Some c" "c_stream c' = c_stream c"
  shows "sv_core (put_client fd c' st)"
  using assms sv_wf_put_client [OF _ assms(2,3)]
  by (simp add: sv_core_def kernel_agrees_def server_simps)

text \<open>What the invariant does not read.\<close>

definition same_core :: "server \<Rightarrow> server \<Rightarrow> bool" where
  "same_core st st' \<longleftrightarrow> sv_sessions st' = sv_sessions st \<and> sv_clients st' = sv_clients st \<and>
     sv_pending_dup_fds st' = sv_pending_dup_fds st \<and> sv_trace st' = sv_trace st \<and>
     sv_listener_fd st' = sv_listener_fd st \<and> sv_ws_wakeup_pipe st' = sv_ws_wakeup_pipe st"

lemma same_core_sv:
  "same_core st st' \<Longrightarrow> sv_core st' = sv_core st \<and> sv_inv st' = sv_inv st"
  by (simp add: same_core_def sv_core_def sv_inv_def sv_wf_def kernel_agrees_def session_ok_def
      get_client_def get_session_def fd_list_def open_fds_def watch_set_def)

lemma same_core_updates:
  "same_core st (st\<lparr>sv_running := b\<rparr>)" "same_core st (st\<lparr>sv_idle_since := i\<rparr>)"
  "same_core st (st\<lparr>sv_ws_cmd_open := b\<rparr>)" "same_core st (st\<lparr>sv_ws_shared := w\<rparr>)"
  "same_core st (st\<lparr>sv_ws_sent := ws\<rparr>)" "same_core st (st\<lparr>sv_ws_replies := rs\<rparr>)"
  "same_core st (notify_ended sid st)"
  by (auto simp: same_core_def notify_ended_def split: prod.splits)

lemmas sv_core_same [simp] = same_core_updates [THEN same_core_sv, THEN conjunct1]
lemmas sv_inv_same [simp] = same_core_updates [THEN same_core_sv, THEN conjunct2]

subsection \<open>What is assumed of the kernel\<close>

text \<open>
  A call that opens a descriptor fails or returns one that is not open: \<open>dup\<close>, \<open>openpty\<close> and
  \<open>accept\<close> return the lowest free number.
\<close>

definition env_ok :: "env \<Rightarrow> bool" where
  "env_ok e \<longleftrightarrow>
     (\<forall>fds fd. e_dup e fds fd < 0 \<or> e_dup e fds fd \<notin> fds) \<and>
     (\<forall>fds shell cols rows dir tid envs m pid name.
        e_pty e fds shell cols rows dir tid envs = Some (m, pid, name) \<longrightarrow> 0 \<le> m \<and> m \<notin> fds) \<and>
     (\<forall>r \<in> set (e_accepts e). \<forall>fds fd. r fds = Accepted fd \<longrightarrow> fd \<notin> fds)"

lemma env_okD:
  assumes "env_ok e"
  shows "0 \<le> e_dup e fds fd \<Longrightarrow> e_dup e fds fd \<notin> fds"
    and "e_pty e fds shell cols rows dir tid envs = Some (m, pid, name) \<Longrightarrow> 0 \<le> m \<and> m \<notin> fds"
    and "r \<in> set (e_accepts e) \<Longrightarrow> r fds = Accepted c \<Longrightarrow> c \<notin> fds"
proof -
  show "e_dup e fds fd \<notin> fds" if "0 \<le> e_dup e fds fd"
    using assms that unfolding env_ok_def by (meson leD)
  show "0 \<le> m \<and> m \<notin> fds"
    if "e_pty e fds shell cols rows dir tid envs = Some (m, pid, name)"
    using assms that unfolding env_ok_def by blast
  show "c \<notin> fds" if "r \<in> set (e_accepts e)" "r fds = Accepted c"
    using assms that unfolding env_ok_def by blast
qed

subsection \<open>Detach, takeover and release\<close>

lemma handle_detach_core:
  assumes "sv_core st"
  shows "sv_core (snd (handle_detach sid cols rows d st))"
proof (cases "get_session st sid")
  case None
  with assms show ?thesis by (simp add: handle_detach_def)
next
  case (Some s)
  let ?r = "0 < cols \<and> 0 < rows"
  let ?s = "if ?r then (session_detach d s)\<lparr>s_winsize := \<lparr>ws_cols = cols, ws_rows = rows\<rparr>\<rparr>
            else session_detach d s"
  let ?calls = "[Kq_add (s_master_fd s)] @ (if ?r then [Pty_set_winsize (s_master_fd s) cols rows] else [])"
  note D = sv_coreD [OF assms Some]
  have "sv_core (emit ?calls (put_session sid ?s st))"
    using D by (intro sv_core_put [OF assms Some]) (auto simp: session_ok_def)
  with Some show ?thesis by (simp add: handle_detach_def Let_def)
qed

lemma force_complete_core:
  assumes "sv_core st"
  shows "sv_core (snd (force_complete_takeover sid d st))"
proof (cases "get_session st sid")
  case None
  with assms show ?thesis by (simp add: force_complete_takeover_def)
next
  case (Some s)
  note D = sv_coreD [OF assms Some]
  have "sv_core (emit [Kq_add (s_master_fd s)] (put_session sid (baton_detach d s) st))"
    using D by (intro sv_core_put [OF assms Some]) (auto simp: session_ok_def)
  with Some show ?thesis by (simp add: force_complete_takeover_def)
qed

lemma wait_for_ack_core:
  assumes "sv_core st"
  shows "sv_core (snd (wait_for_detach_ack e fd sid st))"
  using assms by (auto simp: wait_for_detach_ack_def split: option.splits prod.splits
      intro: sv_core_put_client)

lemma sv_core_push:
  assumes "sv_core st" "get_client st fd = Some c"
  shows "sv_core (emit [Sock_push fd p] st)"
  using assms by (intro sv_core_emit) (auto dest: open_fdsI)

lemma takeover_core:
  assumes "sv_core st"
  shows "sv_core (snd (handle_baton_takeover e sid st))"
proof -
  have "sv_core (snd (force_complete_takeover sid d
      (snd (wait_for_detach_ack e fd sid (emit [Sock_push fd p] st)))))"
    if "get_client st fd = Some c" for fd p c d
    by (intro force_complete_core wait_for_ack_core sv_core_push [OF assms that])
  then show ?thesis
    using assms sv_core_push [OF assms]
    by (auto simp: handle_baton_takeover_def Let_def split: option.splits prod.splits
        intro: handle_detach_core force_complete_core) (metis snd_conv)
qed

lemma watch_subset_open: "watch_set st \<subseteq> open_fds st"
proof -
  have "sv_listener_fd st \<in> open_fds st"
      "(case sv_ws_wakeup_pipe st of None \<Rightarrow> {} | Some (rfd, wfd) \<Rightarrow> {rfd}) \<subseteq> open_fds st"
    by (auto simp: open_fds_def fd_list_def new_fds_def split: option.splits)
  then show ?thesis
    unfolding watch_set_def by (auto dest: open_fdsI)
qed

lemma release_calls:
  assumes core: "sv_core st" and s: "get_session st sid = Some s" and c: "get_client st fd = Some c"
    and d: "d \<notin> open_fds st"
  shows "kern_run (open_fds st, watch_set st)
     ([Fd_dup (s_master_fd s) d, Sock_push fd msg] @ (if b then [Sock_send_fd (c_stream c) d] else [])
      @ [Fd_close d]) = Some (open_fds st, watch_set st)"
proof -
  have "c_stream c = fd" using core c by (auto simp: sv_core_def sv_wf_def)
  moreover have "d \<notin> watch_set st" using d watch_subset_open by blast
  ultimately show ?thesis
    using d open_fdsI(1) [OF s] open_fdsI(2) [OF c] by (auto simp: kern_run_append)
qed

lemma release_core:
  assumes core: "sv_core st" and env: "env_ok e"
  shows "sv_core (snd (handle_baton_release e sid st))"
proof (cases "get_session st sid")
  case None
  with core show ?thesis by (simp add: handle_baton_release_def)
next
  case s: (Some s)
  show ?thesis
  proof (cases "s_previous_owner_fd s")
    case None
    with s core show ?thesis by (simp add: handle_baton_release_def handle_detach_core)
  next
    case prev: (Some fd)
    note D = sv_coreD [OF core s]
    from D(2) prev obtain c where c: "get_client st fd = Some c" by (auto simp: session_ok_def)
    let ?d = "e_dup e (open_fds st) (s_master_fd s)"
    let ?forget = "s\<lparr>s_previous_owner_fd := None\<rparr>"
    let ?give = "(session_attach (e_now e) fd s)
      \<lparr>s_previous_owner_fd := None, s_baton_release_at := Some (e_now e)\<rparr>"
    show ?thesis
    proof (cases "?d < 0")
      case True
      with s prev c core show ?thesis by (simp add: handle_baton_release_def Let_def handle_detach_core)
    next
      case False
      then have d: "?d \<notin> open_fds st" using env by (simp add: env_okD)
      let ?calls = "\<lambda>msg b. [Fd_dup (s_master_fd s) ?d, Sock_push fd msg]
          @ (if b then [Sock_send_fd (c_stream c) ?d] else []) @ [Fd_close ?d]"
      have emitted: "sv_core (emit (?calls msg b) st)" for msg b
        using release_calls [OF core s c d] by (intro sv_core_emit [OF core])
      have "sv_core (put_session sid ?forget (emit (?calls msg b) st))" for msg b
        using D(2) s by (intro sv_core_put_same [OF emitted, where s = s]) (auto simp: session_ok_def server_simps)
      then have forget: "sv_core (snd (handle_detach sid 0 0 g
          (put_session sid ?forget (emit (?calls msg b) st))))" for msg b g
        by (rule handle_detach_core)
      have give: "sv_core (emit [Kq_delete (s_master_fd s)] (put_session sid ?give (emit (?calls msg b) st)))"
        for msg b
        using s c by (intro sv_core_put [OF emitted, where s = s]) (auto simp: session_ok_def server_simps)
      show ?thesis
        using s prev c False forget give [where b = True]
        by (simp add: handle_baton_release_def Let_def server_simps del: append.simps)
    qed
  qed
qed

lemma dec_ws_count_fields [simp]:
  "s_id (dec_ws_count s) = s_id s" "s_master_fd (dec_ws_count s) = s_master_fd s"
  "s_state (dec_ws_count s) = s_state s" "s_owner_fd (dec_ws_count s) = s_owner_fd s"
  "s_previous_owner_fd (dec_ws_count s) = s_previous_owner_fd s"
  by (simp_all add: dec_ws_count_def)

lemma refresh_snapshot_fields [simp]:
  "s_id (refresh_snapshot e s) = s_id s" "s_master_fd (refresh_snapshot e s) = s_master_fd s"
  "s_state (refresh_snapshot e s) = s_state s" "s_owner_fd (refresh_snapshot e s) = s_owner_fd s"
  "s_previous_owner_fd (refresh_snapshot e s) = s_previous_owner_fd s"
  by (simp_all add: refresh_snapshot_def)

lemma session_ok_cong:
  "s_state s' = s_state s \<Longrightarrow> s_owner_fd s' = s_owner_fd s \<Longrightarrow>
   s_previous_owner_fd s' = s_previous_owner_fd s \<Longrightarrow> session_ok st s' = session_ok st s"
  by (simp add: session_ok_def)

text \<open>A change of the fields the invariant does not read.\<close>

lemma sv_core_put_quiet:
  assumes "sv_core st" "get_session st sid = Some s" "s_id s' = s_id s" "s_master_fd s' = s_master_fd s"
    "s_state s' = s_state s" "s_owner_fd s' = s_owner_fd s"
    "s_previous_owner_fd s' = s_previous_owner_fd s"
  shows "sv_core (put_session sid s' st)"
  using assms sv_coreD(2) [OF assms(1,2)] session_ok_cong [of s' s]
  by (intro sv_core_put_same [OF assms(1,2)]) auto

lemma dec_count_core:
  assumes "sv_core st" "get_session st sid = Some s"
  shows "sv_core (put_session sid (dec_ws_count s) st)"
  by (rule sv_core_put_quiet [OF assms]) simp_all

lemma ws_detach_core:
  assumes "sv_core st" and "env_ok e"
  shows "sv_core (snd (handle_ws_detach e cid sid st))"
proof (cases "get_session st sid")
  case None
  with assms show ?thesis by (simp add: handle_ws_detach_def handle_detach_core)
next
  case (Some s)
  note core = dec_count_core [OF assms(1) Some]
  with Some assms(2) show ?thesis
    by (simp add: handle_ws_detach_def Let_def server_simps takeover_core release_core handle_detach_core)
qed

lemma ws_disconnect_core:
  assumes "sv_core st" and "env_ok e"
  shows "sv_core (handle_ws_client_disconnect e cid st)"
  using assms
  by (auto simp: handle_ws_client_disconnect_def Let_def dec_count_core release_core
      split: option.splits prod.splits)

lemma ws_attach_core:
  assumes "sv_core st" and "handle_ws_attach e cid sid st = Inr (resp, st')"
  shows "sv_core st'"
proof -
  define st1 where "st1 =
    (if (case get_session st sid of None \<Rightarrow> False | Some s \<Rightarrow> s_state s = Attached)
     then snd (handle_baton_takeover e sid st) else st)"
  have core: "sv_core st1" using assms(1) by (simp add: st1_def takeover_core)
  show ?thesis
  proof (cases "get_session st1 sid")
    case None
    with assms(2) core show ?thesis
      by (simp add: handle_ws_attach_def Let_def flip: st1_def)
  next
    case s: (Some s)
    note D = sv_coreD [OF core s]
    have quiet: "sv_core (put_session sid s' st1)"
      if "s_id s' = s_id s" "s_master_fd s' = s_master_fd s" "s_state s' = s_state s"
        "s_owner_fd s' = s_owner_fd s" "s_previous_owner_fd s' = s_previous_owner_fd s" for s'
      using that by (rule sv_core_put_quiet [OF core s])
    have watch: "sv_core (emit [Kq_add (s_master_fd s)] (put_session sid s' st1))"
      if "s_id s' = s_id s" "s_master_fd s' = s_master_fd s" "s_state s' = s_state s"
        "s_owner_fd s' = s_owner_fd s" "s_previous_owner_fd s' = s_previous_owner_fd s"
        "s_state s \<noteq> Attached" for s'
      using D that session_ok_cong [of s' s st1]
      by (intro sv_core_put [OF core s]) auto
    from assms(2) s core show ?thesis
      by (auto simp: handle_ws_attach_def Let_def bind_res_Inr_iff simp flip: st1_def
          split: if_splits intro!: quiet watch)
  qed
qed

subsection \<open>Removing and adding a session\<close>

definition del_session :: "uuid \<Rightarrow> server \<Rightarrow> server" where
  "del_session sid st = st\<lparr>sv_sessions := AList.delete sid (sv_sessions st)\<rparr>"

lemma get_session_del [server_simps]:
  "get_session (del_session sid st) k = (if k = sid then None else get_session st k)"
  by (simp add: get_session_def del_session_def sm_get_def AList.delete_conv')

text \<open>The server as a table of its sessions.\<close>

interpretation session_table: keyed_table get_session put_session del_session
  by unfold_locales (auto simp: server_simps fun_eq_iff)

lemma del_session_simps [server_simps]:
  "get_client (del_session sid st) = get_client st"
  "sv_pending_dup_fds (del_session sid st) = sv_pending_dup_fds st"
  "sv_trace (del_session sid st) = sv_trace st"
  "sv_listener_fd (del_session sid st) = sv_listener_fd st"
  "sv_ws_wakeup_pipe (del_session sid st) = sv_ws_wakeup_pipe st"
  "sv_clients (del_session sid st) = sv_clients st"
  "del_session sid (emit calls st) = emit calls (del_session sid st)"
  by (simp_all add: fun_eq_iff get_client_def del_session_def emit_def)

lemma sv_wf_distinct_keys: "sv_wf st \<Longrightarrow> distinct (map fst (sv_sessions st))"
  by (simp add: sv_wf_def)

lemma mem_sessions_iff:
  "sv_wf st \<Longrightarrow> (sid, s) \<in> set (sv_sessions st) \<longleftrightarrow> get_session st sid = Some s"
  by (simp add: sv_wf_distinct_keys get_session_def sm_get_def map_of_eq_Some_iff)

lemma image_filter_diff:
  "(\<And>p. p \<in> S \<Longrightarrow> f p = x \<longleftrightarrow> \<not> P p) \<Longrightarrow> f ` {p \<in> S. P p} = f ` S - {x}"
  by (auto simp: image_iff)

lemma open_fds_del:
  assumes wf: "sv_wf st" and s: "get_session st sid = Some s"
  shows "open_fds (del_session sid st) = open_fds st - {s_master_fd s}"
proof -
  let ?M = "\<lambda>st. (\<lambda>p. s_master_fd (snd p)) ` set (sv_sessions st)"
  let ?R = "set (new_fds (sv_listener_fd st) (sv_ws_wakeup_pipe st))
    \<union> fst ` set (sv_clients st) \<union> snd ` set (sv_pending_dup_fds st)"
  have open_eq: "open_fds st' = ?R \<union> ?M st'"
    if "sv_clients st' = sv_clients st" "sv_pending_dup_fds st' = sv_pending_dup_fds st"
      "sv_listener_fd st' = sv_listener_fd st" "sv_ws_wakeup_pipe st' = sv_ws_wakeup_pipe st" for st'
    using that unfolding open_fds_def fd_list_def by (simp only: set_append set_map Un_ac)
  have M: "?M (del_session sid st) = ?M st - {s_master_fd s}"
  proof -
    have "s_master_fd (snd p) = s_master_fd s \<longleftrightarrow> fst p = sid" if "p \<in> set (sv_sessions st)" for p
    proof -
      have p: "get_session st (fst p) = Some (snd p)"
        using that by (simp add: mem_sessions_iff [OF wf, symmetric])
      from sv_wf_masters(2) [OF sv_wf_fds [OF wf] s p] p s show ?thesis by auto
    qed
    then have "(\<lambda>p. s_master_fd (snd p)) ` {p \<in> set (sv_sessions st). fst p \<noteq> sid}
        = ?M st - {s_master_fd s}"
      by (intro image_filter_diff) simp
    moreover have "set (sv_sessions (del_session sid st)) = {p \<in> set (sv_sessions st). fst p \<noteq> sid}"
      by (auto simp: del_session_def AList.delete_eq)
    ultimately show ?thesis by simp
  qed
  have "s_master_fd s \<notin> ?R"
    using fd_list_disjoint [of st sid s] wf get_sessionD [OF s] by (auto simp: sv_wf_def)
  then show ?thesis
    using open_eq [of st] open_eq [of "del_session sid st"] M by (auto simp: server_simps)
qed

lemma watch_set_del:
  assumes wf: "sv_wf st" and s: "get_session st sid = Some s"
  shows "watch_set (del_session sid st) = watch_set st - {s_master_fd s}"
proof -
  have "session_watch (del_session sid st) = session_watch st - {s_master_fd s}"
  proof -
    have other: "s_master_fd t = s_master_fd s \<longleftrightarrow> k = sid" if "get_session st k = Some t" for k t
      using sv_wf_masters(2) [OF sv_wf_fds [OF wf] s that] s that by auto
    then show ?thesis
      unfolding session_watch_def get_session_del by (intro set_eqI) (simp, metis option.distinct(1))
  qed
  moreover have "base_watch (del_session sid st) = base_watch st"
    by (simp add: base_watch_def server_simps)
  ultimately show ?thesis
    using master_not_base [OF sv_wf_fds [OF wf] s] by (auto simp: watch_set_split)
qed

lemma distinct_shrink:
  "distinct (xs @ ys @ zs) \<Longrightarrow> distinct ys' \<Longrightarrow> set ys' \<subseteq> set ys \<Longrightarrow> distinct (xs @ ys' @ zs)"
  by auto

lemma sv_wf_del:
  assumes "sv_wf st"
  shows "sv_wf (del_session sid st)"
proof -
  let ?f = "map (\<lambda>p. s_master_fd (snd p))"
  let ?S = "sv_sessions st" and ?S' = "sv_sessions (del_session sid st)"
  have sub: "?S' = filter (\<lambda>p. fst p \<noteq> sid) ?S"
    by (auto simp: del_session_def AList.delete_eq intro!: filter_cong)
  have dist: "distinct ((new_fds (sv_listener_fd st) (sv_ws_wakeup_pipe st)
      @ map fst (sv_clients st)) @ ?f ?S @ map snd (sv_pending_dup_fds st))"
    using assms unfolding sv_wf_def fd_list_def append_assoc by blast
  then have "distinct (?f ?S')"
    unfolding sub by (intro distinct_map_filter) (simp only: distinct_append)
  moreover have "set (?f ?S') \<subseteq> set (?f ?S)" unfolding sub by auto
  ultimately have "distinct ((new_fds (sv_listener_fd st) (sv_ws_wakeup_pipe st)
      @ map fst (sv_clients st)) @ ?f ?S' @ map snd (sv_pending_dup_fds st))"
    by (rule distinct_shrink [OF dist])
  then have "distinct (fd_list (del_session sid st))"
    by (simp add: fd_list_def server_simps)
  moreover have "distinct (map fst (sv_sessions (del_session sid st)))"
    using assms by (simp add: sv_wf_def del_session_def AList.distinct_delete)
  moreover have "session_ok (del_session sid st) s = session_ok st s" for s
    by (simp add: session_ok_def server_simps)
  ultimately show ?thesis
    using assms by (simp add: sv_wf_def server_simps)
qed

lemma sv_core_del:
  assumes core: "sv_core st" and s: "get_session st sid = Some s"
    and calls: "kern_run (open_fds st, watch_set st) calls =
      Some (open_fds st - {s_master_fd s}, watch_set st - {s_master_fd s})"
  shows "sv_core (emit calls (del_session sid st))"
  using assms sv_wf_del [of st sid]
  by (simp add: sv_core_def server_simps kernel_agrees_emit [of "del_session sid st" st]
      open_fds_del watch_set_del)

lemma sm_remove_del:
  "sm_remove sid (sv_sessions st) = (get_session st sid, sv_sessions (del_session sid st))"
  by (simp add: sm_remove_def get_session_def sm_get_def del_session_def)

lemma del_session_upd: "st\<lparr>sv_sessions := sv_sessions (del_session sid st)\<rparr> = del_session sid st"
  by (simp add: del_session_def)

lemma del_session_None: "get_session st sid = None \<Longrightarrow> st\<lparr>sv_sessions := AList.delete sid (sv_sessions st)\<rparr> = st"
  by (simp add: get_session_def sm_get_def AList.delete_id map_of_eq_None_iff)

lemma session_drop_run:
  assumes "0 \<le> s_master_fd s" "s_master_fd s \<in> op"
  shows "kern_run (op, w) (session_drop alive s) = Some (op - {s_master_fd s}, w - {s_master_fd s})"
  using assms by (auto simp: session_drop_def session_cleanup_def kern_run_append)

lemma session_kill_run:
  assumes "s_master_fd s \<in> op"
  shows "kern_run (op, w) (snd (session_cleanup alive s) @
           session_drop alive (fst (session_cleanup alive s))) =
         Some (op - {s_master_fd s}, w - {s_master_fd s})"
  using assms by (auto simp: session_drop_def session_cleanup_def kern_run_append)

lemma notify_emit_commute [server_simps]:
  "notify_ended sid (emit calls st) = emit calls (notify_ended sid st)"
  "notify_ended sid (del_session sid' st) = del_session sid' (notify_ended sid st)"
  by (simp_all add: notify_ended_def emit_def del_session_def split: prod.splits)

lemma notify_get [server_simps]:
  "get_session (notify_ended sid' st) sid = get_session st sid"
  "get_client (notify_ended sid' st) fd = get_client st fd"
  "open_fds (notify_ended sid' st) = open_fds st" "watch_set (notify_ended sid' st) = watch_set st"
  by (simp_all add: notify_ended_def get_session_def get_client_def open_fds_def fd_list_def
      watch_set_def split: prod.splits)

lemma sv_core_notify [simp]: "sv_core (notify_ended sid st) = sv_core st"
  by simp

lemma kill_core:
  assumes "sv_core st"
  shows "sv_core (snd (handle_kill e sid st))"
proof (cases "get_session st sid")
  case None
  with assms show ?thesis by (simp add: handle_kill_def sm_remove_del)
next
  case (Some s)
  let ?calls = "Kq_delete (s_master_fd s) # snd (session_cleanup (e_alive e) s)
    @ session_drop (e_alive e) (fst (session_cleanup (e_alive e) s))"
  have "sv_core (notify_ended sid st)" using assms by simp
  then have "sv_core (emit ?calls (del_session sid (notify_ended sid st)))"
    using sv_coreD(5) [OF assms Some] Some
    by (intro sv_core_del [where s = s]) (simp_all add: server_simps session_kill_run)
  moreover have "snd (handle_kill e sid st) = emit ?calls (del_session sid (notify_ended sid st))"
    using Some by (simp add: handle_kill_def sm_remove_del Let_def split_beta)
      (simp add: server_simps del_session_upd)
  ultimately show ?thesis by simp
qed

lemma drop_session_core:
  assumes "sv_core st" "get_session st sid = Some s"
  shows "sv_core (drop_session e sid (emit [Kq_delete (s_master_fd s)] st))"
proof -
  note D = sv_coreD [OF assms]
  have "sv_core (emit (Kq_delete (s_master_fd s) # session_drop (e_alive e) s) (del_session sid st))"
    using D by (intro sv_core_del [OF assms]) (simp add: session_drop_run)
  moreover have "drop_session e sid (emit [Kq_delete (s_master_fd s)] st) =
      emit (Kq_delete (s_master_fd s) # session_drop (e_alive e) s) (del_session sid st)"
    using assms(2)
    by (simp add: drop_session_def sm_remove_def get_session_def sm_get_def emit_def del_session_def)
  ultimately show ?thesis by simp
qed

lemma find_some: "List.find P xs = Some x \<Longrightarrow> x \<in> set xs \<and> P x"
  by (auto simp: find_Some_iff)

lemma find_by_get:
  assumes "sv_core st"
  shows "find_by_master_fd (sv_sessions st) fd = Some s \<Longrightarrow>
           get_session st (s_id s) = Some s \<and> s_master_fd s = fd"
    and "find_by_child_pid (sv_sessions st) pid = Some s \<Longrightarrow>
           get_session st (s_id s) = Some s \<and> s_child_pid s = pid"
proof -
  have wf: "sv_wf st" using assms by (simp add: sv_core_def)
  have "get_session st (s_id s) = Some s" if "s \<in> snd ` set (sv_sessions st)" for s
  proof -
    from that obtain sid where "(sid, s) \<in> set (sv_sessions st)" by auto
    with wf have "get_session st sid = Some s" by (simp add: mem_sessions_iff)
    with sv_coreD(1) [OF assms] show ?thesis by auto
  qed
  then show "find_by_master_fd (sv_sessions st) fd = Some s \<Longrightarrow>
           get_session st (s_id s) = Some s \<and> s_master_fd s = fd"
    and "find_by_child_pid (sv_sessions st) pid = Some s \<Longrightarrow>
           get_session st (s_id s) = Some s \<and> s_child_pid s = pid"
    by (auto simp: find_by_master_fd_def find_by_child_pid_def dest: find_some)
qed

end
