(* ===== verification/Server_Sessions.thy ===== *)
theory Server_Sessions
  imports Server_Inv
begin

section \<open>Sessions and connections that come and go\<close>

text \<open>Adding a session, and what the loop does with children, output and connections.\<close>

subsection \<open>Adding a session\<close>

lemma mset_update:
  "distinct (map fst xs) \<Longrightarrow> mset (AList.update k v xs) = add_mset (k, v) (mset (AList.delete k xs))"
proof (induction xs)
  case Nil
  then show ?case by simp
next
  case (Cons p xs)
  show ?case
  proof (cases "fst p = k")
    case True
    then have "AList.delete k xs = xs" using Cons.prems by (auto simp: AList.delete_id)
    with True Cons.prems show ?thesis by (cases p) (auto simp: AList.delete_eq)
  next
    case False
    with Cons show ?thesis by (cases p) (auto simp: AList.delete_eq)
  qed
qed

lemma mset_fd_list_put:
  assumes "distinct (map fst (sv_sessions st))"
  shows "mset (fd_list (put_session k s st)) =
         add_mset (s_master_fd s) (mset (fd_list (del_session k st)))"
proof -
  have "mset (map (\<lambda>p. s_master_fd (snd p)) (sv_sessions (put_session k s st))) =
      add_mset (s_master_fd s) (mset (map (\<lambda>p. s_master_fd (snd p)) (sv_sessions (del_session k st))))"
    using arg_cong [OF mset_update [OF assms, of k s], of "image_mset (\<lambda>p. s_master_fd (snd p))"]
    by (simp add: put_session_def sm_put_def del_session_def)
  moreover have "sv_clients (put_session k s st) = sv_clients st" by (simp add: put_session_def)
  ultimately show ?thesis
    by (simp add: fd_list_def server_simps)
qed

lemma open_fds_put:
  assumes "distinct (map fst (sv_sessions st))"
  shows "open_fds (put_session k s st) = insert (s_master_fd s) (open_fds (del_session k st))"
  using arg_cong [OF mset_fd_list_put [OF assms, of k s], of set_mset]
  by (simp add: open_fds_def)

lemma watch_set_put:
  "s_state s \<noteq> Attached \<Longrightarrow>
   watch_set (put_session k s st) = insert (s_master_fd s) (watch_set (del_session k st))"
proof -
  assume a: "s_state s \<noteq> Attached"
  have "session_watch (put_session k s st) = insert (s_master_fd s) (session_watch (del_session k st))"
    unfolding session_watch_UN UN_split [where a = k] using a by (simp add: server_simps)
  moreover have "base_watch (put_session k s st) = base_watch (del_session k st)"
    by (simp add: base_watch_def server_simps)
  ultimately show ?thesis by (simp add: watch_set_split)
qed

lemma sv_core_add:
  assumes core: "sv_core st" and k: "s_id s = k" and ok: "session_ok st s" and m: "0 \<le> s_master_fd s"
    and active: "s_state s \<noteq> Attached" and fresh: "s_master_fd s \<notin> open_fds st"
    and calls: "kern_run (open_fds st, watch_set st) calls =
      Some (insert (s_master_fd s) (open_fds (del_session k st)),
            insert (s_master_fd s) (watch_set (del_session k st)))"
  shows "sv_core (emit calls (put_session k s st))"
proof -
  from core have wf: "sv_wf st" and ka: "kernel_agrees st" by (simp_all add: sv_core_def)
  then have wf': "sv_wf (del_session k st)" by (simp add: sv_wf_del)
  note keys = sv_wf_distinct_keys [OF wf]
  have "open_fds (del_session k st) \<subseteq> open_fds st"
    by (auto simp: open_fds_def mem_fd_list server_simps del_session_def AList.delete_eq)
  then have "distinct (s_master_fd s # fd_list (del_session k st))"
    using fresh wf' by (auto simp: sv_wf_def open_fds_def)
  then have dist: "distinct (fd_list (put_session k s st))"
    using mset_fd_list_put [OF keys, of k s] by (metis mset.simps(2) mset_eq_imp_distinct_iff)
  have "distinct (map fst (sv_sessions (put_session k s st)))"
    using keys by (simp add: put_session_def sm_put_def AList.distinct_update)
  with wf dist k ok m have "sv_wf (put_session k s st)"
    by (simp add: sv_wf_def server_simps)
  moreover have "kernel_agrees (emit calls (put_session k s st))"
    using calls
    by (simp add: kernel_agrees_emit [OF _ ka] open_fds_put [OF keys] watch_set_put [OF active])
  ultimately show ?thesis by (simp add: sv_core_def server_simps)
qed

lemma del_session_absent:
  "get_session st sid = None \<Longrightarrow> del_session sid st = st"
  by (simp add: del_session_def del_session_None)

lemma session_new_calls:
  "\<exists>cs. snd (session_new now k os m pid name ws tid) = map Shm_sys cs"
  by (auto simp: session_new_def Let_def split: sum.splits prod.splits)

lemma session_new_fields:
  "fst (session_new now k os m pid name ws tid) = Inr s \<Longrightarrow>
   s_id s = k \<and> s_master_fd s = m \<and> s_child_pid s = pid \<and> s_state s = Active \<and>
   s_owner_fd s = None \<and> s_previous_owner_fd s = None"
  by (auto simp: session_new_def Let_def split: sum.splits prod.splits)

lemma create_core:
  assumes core: "sv_core st" and env: "env_ok e"
    and eq: "handle_create e shell cols rows dir tid envs st = Inr (resp, st')"
  shows "sv_core st'"
proof (cases "e_pty e (open_fds st) (case shell of None \<Rightarrow> [] | Some x \<Rightarrow> x) cols rows dir tid envs")
  case None
  with core eq show ?thesis by (simp add: handle_create_def)
next
  case (Some p)
  then obtain m pid name where pty:
      "e_pty e (open_fds st) (case shell of None \<Rightarrow> [] | Some x \<Rightarrow> x) cols rows dir tid envs = Some (m, pid, name)"
    by (cases p) auto
  let ?new = "session_new (e_now e) (e_uuid e) (e_shm e) m pid name \<lparr>ws_cols = cols, ws_rows = rows\<rparr> tid"
  from eq pty obtain s where new: "fst ?new = Inr s"
    by (auto simp: handle_create_def Let_def split: prod.splits sum.splits)
  note F = session_new_fields [OF new] and fresh = env_okD(2) [OF env pty]
  obtain cs where cs: "snd ?new = map Shm_sys cs" using session_new_calls by blast
  let ?k = "e_uuid e"
  let ?open = "Fd_open m # map Shm_sys cs @ [Kq_add m, Kq_proc pid]"
  let ?drop = "case get_session st ?k of None \<Rightarrow> [] | Some old \<Rightarrow> session_drop (e_alive e) old"
  have st': "st' = emit (?open @ ?drop) (put_session ?k s st)"
  proof -
    have "?new = (Inr s, map Shm_sys cs)" using new cs by (metis prod.collapse)
    with eq pty F show ?thesis
      by (auto simp: handle_create_def Let_def sm_add_def server_simps split: option.splits)
        (simp_all add: emit_def put_session_def sm_put_def)
  qed
  have open_run: "kern_run (open_fds st, watch_set st) ?open =
      Some (insert m (open_fds st), insert m (watch_set st))"
    using fresh by (simp add: kern_run_append)
  have "kern_run (open_fds st, watch_set st) (?open @ ?drop) =
      Some (insert m (open_fds (del_session ?k st)), insert m (watch_set (del_session ?k st)))"
  proof (cases "get_session st ?k")
    case None
    with open_run show ?thesis by (simp add: kern_run_append del_session_absent)
  next
    case (Some old)
    note D = sv_coreD [OF core Some]
    have "m \<noteq> s_master_fd old" using fresh D(5) by auto
    with core Some D(3,5) fresh show ?thesis
      by (simp add: kern_run_append session_drop_run sv_core_def open_fds_del watch_set_del insert_Diff_if)
  qed
  then show ?thesis
    unfolding st' using core F fresh
    by (intro sv_core_add) (simp_all add: session_ok_def)
qed

subsection \<open>The descriptor between \<open>dup\<close> and \<open>send_fd\<close>\<close>

definition set_pending :: "(uuid \<times> fd) list \<Rightarrow> server \<Rightarrow> server" where
  "set_pending ps st = st\<lparr>sv_pending_dup_fds := ps\<rparr>"

lemma set_pending_simps [server_simps]:
  "get_session (set_pending ps st) = get_session st" "get_client (set_pending ps st) = get_client st"
  "sv_pending_dup_fds (set_pending ps st) = ps" "sv_trace (set_pending ps st) = sv_trace st"
  "sv_sessions (set_pending ps st) = sv_sessions st" "sv_clients (set_pending ps st) = sv_clients st"
  "watch_set (set_pending ps st) = watch_set st"
  "session_ok (set_pending ps st) = session_ok st"
  "set_pending ps (emit calls st) = emit calls (set_pending ps st)"
  "set_pending ps (put_session sid s st) = put_session sid s (set_pending ps st)"
  "set_pending ps (set_pending qs st) = set_pending ps st"
  by (simp_all add: set_pending_def fun_eq_iff get_session_def get_client_def watch_set_def
      session_ok_def emit_def put_session_def)

lemma fd_list_pending:
  "sv_pending_dup_fds st = [(sid, d)] \<Longrightarrow> fd_list st = fd_list (set_pending [] st) @ [d]"
  "sv_pending_dup_fds st = [] \<Longrightarrow> fd_list (set_pending [(sid, d)] st) = fd_list st @ [d]"
  by (simp_all add: fd_list_def set_pending_def)

lemma sv_wf_pending:
  "sv_pending_dup_fds st = [] \<Longrightarrow> d \<notin> open_fds st \<Longrightarrow> sv_wf st \<Longrightarrow> sv_wf (set_pending [(sid, d)] st)"
  "sv_pending_dup_fds st = [(sid, d)] \<Longrightarrow> sv_wf st \<Longrightarrow> sv_wf (set_pending [] st)"
  using fd_list_pending(2) [of st sid d] fd_list_pending(1) [of st sid d]
  by (simp_all add: sv_wf_def server_simps open_fds_def)

lemma dup_core:
  assumes core: "sv_core st" and p: "sv_pending_dup_fds st = []"
    and m: "m \<in> open_fds st" and d: "d \<notin> open_fds st"
  shows "sv_core (emit [Fd_dup m d] (set_pending [(sid, d)] st))"
proof -
  have "open_fds (set_pending [(sid, d)] st) = insert d (open_fds st)"
    using p by (simp add: open_fds_def fd_list_pending(2))
  with assms show ?thesis
    by (simp add: sv_core_def server_simps sv_wf_pending kernel_agrees_emit [of "set_pending [(sid, d)] st" st])
qed

lemma pending_close_core:
  assumes core: "sv_core st" and p: "sv_pending_dup_fds st = [(sid, d)]"
    and quiet: "kern_run (open_fds st, watch_set st) calls = Some (open_fds st, watch_set st)"
  shows "sv_core (emit (calls @ [Fd_close d]) (set_pending [] st))"
proof -
  let ?st = "set_pending [] st"
  from core have wf: "sv_wf st" and ka: "kernel_agrees st" by (simp_all add: sv_core_def)
  then have "distinct (fd_list ?st @ [d])" using p by (simp add: sv_wf_def fd_list_pending(1) [OF p])
  then have d: "d \<notin> open_fds ?st" by (simp add: open_fds_def)
  have op: "open_fds st = insert d (open_fds ?st)"
    using p by (simp add: open_fds_def fd_list_pending(1) [OF p])
  have "d \<notin> watch_set st"
    using d watch_subset_open [of ?st] by (auto simp: server_simps)
  with quiet op d have "kern_run (open_fds st, watch_set st) (calls @ [Fd_close d]) =
      Some (open_fds ?st, watch_set st)"
    by (simp add: kern_run_append)
  then show ?thesis
    using wf p ka
    by (simp add: sv_core_def server_simps sv_wf_pending(2) [OF p] kernel_agrees_emit [of ?st st])
qed

subsection \<open>Attach\<close>

definition pending_for :: "response \<Rightarrow> server \<Rightarrow> bool" where
  "pending_for resp st \<longleftrightarrow>
     (case resp of
        AttachReady sid cols rows pid name snap \<Rightarrow> \<exists>d. sv_pending_dup_fds st = [(sid, d)]
      | _ \<Rightarrow> sv_pending_dup_fds st = [])"

lemma attach_core:
  assumes inv: "sv_inv st" and env: "env_ok e" and c: "get_client st fd = Some c"
    and eq: "handle_attach e fd sid st = (resp, st')"
  shows "sv_core st' \<and> pending_for resp st'"
proof -
  from inv have core: "sv_core st" and p: "sv_pending_dup_fds st = []" by (simp_all add: sv_inv_def)
  show ?thesis
  proof (cases "get_session st sid")
    case None
    with eq core p show ?thesis by (auto simp: handle_attach_def pending_for_def)
  next
    case s: (Some s)
    note D = sv_coreD [OF core s]
    let ?d = "e_dup e (open_fds st) (s_master_fd s)"
    show ?thesis
    proof (cases "s_state s = Attached \<or> \<not> is_child_alive (e_alive e) s \<or> ?d < 0")
      case True
      with eq core p s show ?thesis
        by (auto simp: handle_attach_def pending_for_def Let_def split: if_splits)
    next
      case False
      then have d: "?d \<notin> open_fds st" using env by (simp add: env_okD)
      define s1 where "s1 = refresh_snapshot e s"
      define s2 where "s2 = session_attach (e_now e) fd (s1\<lparr>s_grid_snapshot := None\<rparr>)"
      define files where "files = (case s_grid_snapshot s1 of None \<Rightarrow> []
        | Some data \<Rightarrow> [File_write (snapshot_path sid) data])"
      let ?st1 = "emit [Fd_dup (s_master_fd s) ?d] (set_pending [(sid, ?d)] st)"
      have core1: "sv_core ?st1" by (rule dup_core [OF core p D(5) d])
      have files: "kern_run k files = Some k" for k
        by (cases k) (simp add: files_def split: option.splits)
      have same: "s_id s2 = s_id s" "s_master_fd s2 = s_master_fd s" "s_state s2 = Attached"
          "s_owner_fd s2 = Some fd" "s_previous_owner_fd s2 = s_previous_owner_fd s"
        by (simp_all add: s2_def s1_def session_attach_def)
      have "sv_core (emit (files @ [Kq_delete (s_master_fd s)]) (put_session sid s2 ?st1))"
        using same s c D(2) files
        by (intro sv_core_put [OF core1, where s = s])
          (auto simp: server_simps session_ok_def kern_run_append)
      moreover have "st' = emit (files @ [Kq_delete (s_master_fd s)]) (put_session sid s2 ?st1)"
          "resp = AttachReady sid (ws_cols (s_winsize s)) (ws_rows (s_winsize s))
             (s_child_pid s) (s_shm_name s) None"
        using eq s False p
        by (auto simp: handle_attach_def Let_def s2_def s1_def files_def server_simps)
          (simp_all add: emit_def put_session_def set_pending_def)
      ultimately show ?thesis by (simp add: pending_for_def server_simps)
    qed
  qed
qed

subsection \<open>Requests\<close>

lemma kept_simps [server_simps]:
  "sv_clients (put_session sid s st) = sv_clients st" "sv_clients (emit calls st) = sv_clients st"
  "sv_clients (notify_ended sid st) = sv_clients st"
  "sv_pending_dup_fds (notify_ended sid st) = sv_pending_dup_fds st"
  by (simp_all add: put_session_def emit_def notify_ended_def split: prod.splits)

lemma handle_detach_kept [server_simps]:
  "sv_pending_dup_fds (snd (handle_detach sid cols rows d st)) = sv_pending_dup_fds st"
  "sv_clients (snd (handle_detach sid cols rows d st)) = sv_clients st"
  by (simp_all add: handle_detach_def Let_def server_simps split: option.splits)

lemma handle_kill_kept [server_simps]:
  "sv_pending_dup_fds (snd (handle_kill e sid st)) = sv_pending_dup_fds st"
  "sv_clients (snd (handle_kill e sid st)) = sv_clients st"
  by (simp_all add: handle_kill_def sm_remove_def Let_def server_simps split: option.splits prod.splits)

lemma handle_winsize_kept [server_simps]:
  "sv_pending_dup_fds (snd (handle_winsize_update e sid cols rows st)) = sv_pending_dup_fds st"
  "sv_clients (snd (handle_winsize_update e sid cols rows st)) = sv_clients st"
  by (simp_all add: handle_winsize_update_def Let_def server_simps split: option.splits)

lemma handle_ws_input_kept [server_simps]:
  "sv_pending_dup_fds (handle_ws_input e sid d st) = sv_pending_dup_fds st"
  "sv_clients (handle_ws_input e sid d st) = sv_clients st"
  by (simp_all add: handle_ws_input_def server_simps split: option.splits)

lemma handle_create_kept:
  "handle_create e shell cols rows dir tid envs st = Inr (resp, st') \<Longrightarrow>
   sv_pending_dup_fds st' = sv_pending_dup_fds st \<and> sv_clients st' = sv_clients st"
  by (auto simp: handle_create_def Let_def sm_add_def server_simps emit_def
      split: option.splits prod.splits sum.splits)

lemma handle_attach_clients [server_simps]:
  "sv_clients (snd (handle_attach e fd sid st)) = sv_clients st"
  by (simp add: handle_attach_def Let_def server_simps put_session_def emit_def split: option.splits)

lemma winsize_core:
  assumes "sv_core st"
  shows "sv_core (snd (handle_winsize_update e sid cols rows st))"
proof (cases "get_session st sid")
  case None
  with assms show ?thesis by (simp add: handle_winsize_update_def)
next
  case (Some s)
  let ?s = "s\<lparr>s_winsize := \<lparr>ws_cols = cols, ws_rows = rows\<rparr>,
               s_terminal_state := map_option (ts_resize cols rows) (s_terminal_state s)\<rparr>"
  have put: "sv_core (put_session sid ?s st)"
    by (rule sv_core_put_quiet [OF assms Some]) simp_all
  have "sv_core (emit (Pty_set_winsize (s_master_fd s) cols rows # sig) (put_session sid ?s st))"
    if "sig = [] \<or> sig = [Sig_kill pid name]" for sig pid name
    using that sv_coreD(5) [OF assms Some] Some
    by (intro sv_core_emit [OF put]) (auto simp: server_simps)
  with put Some show ?thesis
    by (auto simp: handle_winsize_update_def Let_def)
qed

lemma ws_input_core:
  assumes "sv_core st"
  shows "sv_core (handle_ws_input e sid d st)"
proof (cases "get_session st sid")
  case None
  with assms show ?thesis by (simp add: handle_ws_input_def)
next
  case (Some s)
  have "kern_run (open_fds st, watch_set st) (map (Pty_write (s_master_fd s)) bs) =
      Some (open_fds st, watch_set st)" for bs
    using sv_coreD(5) [OF assms Some] by (intro kern_run_quiet) auto
  then show ?thesis
    using Some by (simp add: handle_ws_input_def sv_core_emit [OF assms])
qed

lemma pending_for_others:
  "pending_for (fst (handle_detach sid cols rows d st)) st' = (sv_pending_dup_fds st' = [])"
  "pending_for (fst (handle_kill e sid st)) st' = (sv_pending_dup_fds st' = [])"
  "pending_for (fst (handle_winsize_update e sid cols rows st)) st' = (sv_pending_dup_fds st' = [])"
  "pending_for (fst (handle_remote_input e sid data st)) st' = (sv_pending_dup_fds st' = [])"
  "pending_for (handle_list e st) st' = (sv_pending_dup_fds st' = [])"
  by (simp_all add: pending_for_def handle_detach_def handle_kill_def handle_winsize_update_def
      handle_remote_input_def handle_list_def Let_def sm_remove_def split: option.splits prod.splits)

text \<open>Every request keeps the invariant; only an accepted attach leaves a descriptor to send.\<close>

lemma request_core:
  assumes inv: "sv_inv st" and env: "env_ok e"
    and fd: "\<And>sid. req = Req_Attach sid \<Longrightarrow> get_client st fd \<noteq> None"
    and eq: "handle_request e fd req st = Inr (resp, st')"
  shows "sv_core st' \<and> pending_for resp st' \<and> sv_clients st' = sv_clients st"
proof -
  from inv have core: "sv_core st" and p: "sv_pending_dup_fds st = []" by (simp_all add: sv_inv_def)
  show ?thesis
  proof (cases req)
    case (Req_Create shell cols rows dir tid envs)
    with eq have c: "handle_create e shell cols rows dir tid envs st = Inr (resp, st')"
      by (simp add: handle_request_def)
    have "\<not> (\<exists>sid a b c d f. resp = AttachReady sid a b c d f)"
      using c by (auto simp: handle_create_def Let_def split: option.splits prod.splits sum.splits)
    with create_core [OF core env c] handle_create_kept [OF c] p show ?thesis
      by (auto simp: pending_for_def split: response.splits)
  next
    case (Req_Attach sid)
    with eq have a: "handle_attach e fd sid st = (resp, st')" by (simp add: handle_request_def)
    from fd Req_Attach obtain c where "get_client st fd = Some c" by auto
    with a attach_core [OF inv env _ a] handle_attach_clients [of e fd sid st] show ?thesis by simp
  next
    case (Req_Detach sid cols rows d)
    with eq have "st' = snd (handle_detach sid cols rows d st)"
        "resp = fst (handle_detach sid cols rows d st)"
      by (simp_all add: handle_request_def)
    with core p show ?thesis
      by (simp add: handle_detach_core server_simps pending_for_others)
  next
    case Req_List
    with eq core p show ?thesis
      by (auto simp: handle_request_def handle_list_def pending_for_def)
  next
    case (Req_Kill sid)
    with eq have "st' = snd (handle_kill e sid st)" "resp = fst (handle_kill e sid st)"
      by (simp_all add: handle_request_def)
    with core p show ?thesis
      by (simp add: kill_core server_simps pending_for_others)
  next
    case (Req_WinsizeUpdate sid cols rows)
    with eq have "st' = snd (handle_winsize_update e sid cols rows st)"
        "resp = fst (handle_winsize_update e sid cols rows st)"
      by (simp_all add: handle_request_def)
    with core p show ?thesis
      by (simp add: winsize_core server_simps pending_for_others)
  next
    case Req_Ping
    with eq core p show ?thesis by (auto simp: handle_request_def pending_for_def)
  next
    case Req_Shutdown
    with eq core p show ?thesis by (auto simp: handle_request_def pending_for_def)
  next
    case (Req_Input sid d)
    with eq core p show ?thesis
      by (auto simp: handle_request_def handle_remote_input_def pending_for_def ws_input_core server_simps
          split: option.splits)
  qed
qed

subsection \<open>One turn of the client loop\<close>

lemma finish_attach_core:
  assumes core: "sv_core st" and p: "pending_for resp st" and c: "get_client st fd = Some c"
  shows "sv_inv (finish_attach e fd resp st) \<and> sv_clients (finish_attach e fd resp st) = sv_clients st"
proof (cases "\<exists>sid cols rows pid name snap. resp = AttachReady sid cols rows pid name snap")
  case False
  then show ?thesis
    using core p by (cases resp) (simp_all add: finish_attach_def pending_for_def sv_inv_def)
next
  case True
  then obtain sid cols rows pid name snap where resp: "resp = AttachReady sid cols rows pid name snap"
    by blast
  with p obtain d where d: "sv_pending_dup_fds st = [(sid, d)]" by (auto simp: pending_for_def)
  let ?st = "emit [Sock_send_fd (c_stream c) d, Fd_close d] (set_pending [] st)"
  have "c_stream c = fd" using core c by (simp add: sv_core_def sv_wf_def)
  then have "sv_core (emit ([Sock_send_fd (c_stream c) d] @ [Fd_close d]) (set_pending [] st))"
    using open_fdsI(2) [OF c] open_fdsI(3) [of sid d st] d
    by (intro pending_close_core [OF core d]) simp
  then have core': "sv_core ?st" by simp
  have send: "send_attach_data e fd sid st = (e_send_fd_ok e (c_stream c), ?st)"
    using d c by (simp add: send_attach_data_def take_pending_def set_pending_def get_client_def)
  have "close_pending sid ?st = ?st"
    by (simp add: close_pending_def take_pending_def server_simps)
  then have revert: "revert_attach sid ?st = (case get_session ?st sid of None \<Rightarrow> ?st
      | Some s \<Rightarrow> emit [Kq_add (s_master_fd s)] (put_session sid (session_detach None s) ?st))"
    by (simp add: revert_attach_def Let_def)
  have "sv_core (emit [Kq_add (s_master_fd s)] (put_session sid (session_detach None s) ?st))"
    if "get_session ?st sid = Some s" for s
    using sv_coreD [OF core' that]
    by (intro sv_core_put [OF core' that]) (auto simp: session_ok_def)
  with core' send revert resp show ?thesis
    by (simp add: finish_attach_def sv_inv_def server_simps split: option.splits)
qed

lemma send_response_core:
  assumes core: "sv_core st" and p: "pending_for resp st" and c: "get_client st fd = Some c"
    and n: "n \<le> length (c_read_buf c)"
  shows "\<exists>st'. send_response fd resp n st = Inr st' \<and> sv_core st' \<and> pending_for resp st' \<and>
           get_client st' fd = Some (c\<lparr>c_read_buf := drop n (c_read_buf c)\<rparr>)"
proof -
  let ?c = "c\<lparr>c_read_buf := drop n (c_read_buf c)\<rparr>"
  let ?st = "put_client fd ?c (emit [Sock_write fd resp] st)"
  have "sv_core (emit [Sock_write fd resp] st)"
    using core open_fdsI(2) [OF c] by (intro sv_core_emit) simp_all
  then have "sv_core ?st"
    using c by (intro sv_core_put_client [where c = c]) (simp_all add: get_client_simps)
  moreover have "pending_for resp ?st"
    using p by (simp add: pending_for_def pending_simps split: response.splits)
  moreover have "send_response fd resp n st = Inr ?st"
    using c n by (simp add: send_response_def)
  moreover have "get_client ?st fd = Some ?c" by (simp add: get_client_simps)
  ultimately show ?thesis by blast
qed

lemma handle_request_fault: "handle_request e fd req st = Inl f \<Longrightarrow> f = Panic"
  by (auto simp: handle_request_def handle_create_def session_new_def Let_def
      split: request.splits option.splits prod.splits sum.splits)

lemma answer_core:
  assumes "sv_inv st" "env_ok e" "get_client st fd = Some c" "answer e fd result st = Inr (resp, st')"
  shows "sv_core st' \<and> pending_for resp st' \<and> sv_clients st' = sv_clients st"
proof (cases result)
  case (Inl a)
  with assms show ?thesis by (auto simp: answer_def pending_for_def sv_inv_def)
next
  case (Inr req)
  with assms request_core [OF assms(1,2), of req fd resp st'] show ?thesis by (simp add: answer_def)
qed

text \<open>
  The fuel is enough: every turn takes at least four bytes from the buffer. The loop's only
  fault is the panic of a session whose ring cannot be created.
\<close>

lemma client_loop_core:
  assumes "sv_inv st" "\<And>i. env_ok (E i)" "get_client st fd = Some c" "length (c_read_buf c) < n"
  shows "case client_loop n E fd st of
           Inl f \<Rightarrow> f = Panic
         | Inr st' \<Rightarrow> sv_inv st' \<and> (\<exists>c'. get_client st' fd = Some c' \<and>
             try_decode_message (e_dec_request (E 0)) (c_read_buf c') = None)"
  using assms
proof (induction n arbitrary: st c)
  case 0
  then show ?case by simp
next
  case (Suc n)
  let ?e = "E n"
  have decode_cong: "try_decode_message f b = None \<longleftrightarrow> try_decode_message g b = None" for f g b
    by (simp add: try_decode_message_def Let_def)
  show ?case
  proof (cases "try_decode_message (e_dec_request ?e) (c_read_buf c)")
    case None
    with Suc.prems decode_cong show ?thesis by auto
  next
    case (Some p)
    then obtain result k where d: "try_decode_message (e_dec_request ?e) (c_read_buf c) = Some (result, k)"
      by (cases p) auto
    note k = try_decode_consumed [OF d]
    show ?thesis
    proof (cases "answer ?e fd result st")
      case (Inl f)
      then have "f = Panic" by (auto simp: answer_def split: sum.splits dest: handle_request_fault)
      with Inl d Suc.prems show ?thesis by simp
    next
      case (Inr q)
      then obtain resp st1 where a: "answer ?e fd result st = Inr (resp, st1)" by (cases q) auto
      from answer_core [OF Suc.prems(1,2,3) a] have st1: "sv_core st1" "pending_for resp st1"
          "get_client st1 fd = Some c"
        using Suc.prems(3) by (auto simp: get_client_def)
      from send_response_core [OF st1 conjunct2 [OF k]] obtain st2 where st2:
          "send_response fd resp k st1 = Inr st2" "sv_core st2" "pending_for resp st2"
          "get_client st2 fd = Some (c\<lparr>c_read_buf := drop k (c_read_buf c)\<rparr>)" by blast
      let ?st3 = "finish_attach ?e fd resp st2"
      from finish_attach_core [OF st2(2,3,4)] have "sv_inv ?st3"
          "get_client ?st3 fd = Some (c\<lparr>c_read_buf := drop k (c_read_buf c)\<rparr>)"
        using st2(4) by (auto simp: get_client_def)
      then have "case client_loop n E fd ?st3 of
           Inl f \<Rightarrow> f = Panic
         | Inr st' \<Rightarrow> sv_inv st' \<and> (\<exists>c'. get_client st' fd = Some c' \<and>
             try_decode_message (e_dec_request (E 0)) (c_read_buf c') = None)"
        using Suc.prems(2,4) k by (intro Suc.IH) auto
      with d a st2(1) Suc.prems(3) show ?thesis by simp
    qed
  qed
qed

end
