(* ===== verification/Server_Reach.thy ===== *)
theory Server_Reach
  imports Server_Sessions
begin

section \<open>Every turn of the event loop keeps the invariant\<close>

text \<open>
  The steps of the loop that are not requests: connections that come and go, children that
  exit, output, maintenance and the commands of WebSocket clients; then the loop's turn, the
  states the daemon can reach and what holds in all of them.
\<close>

subsection \<open>Connections that come\<close>

lemma map_fst_update_new: "map_of xs k = None \<Longrightarrow> map fst (AList.update k v xs) = map fst xs @ [k]"
  by (induction xs) (auto split: if_splits)

lemma add_client_inv:
  assumes inv: "sv_inv st" and fd: "fd \<notin> open_fds st"
  shows "sv_inv (add_client fd st)"
proof -
  let ?c = "\<lparr>c_stream = fd, c_read_buf = []\<rparr>"
  let ?st = "put_client fd ?c st"
  from inv have wf: "sv_wf st" and ka: "kernel_agrees st" and p: "sv_pending_dup_fds st = []"
    by (simp_all add: sv_inv_def sv_core_def)
  have none: "get_client st fd = None"
    using fd open_fdsI(2) by (cases "get_client st fd") auto
  have sess: "sv_sessions ?st = sv_sessions st" by (simp add: put_client_def)
  have list: "fd_list ?st = new_fds (sv_listener_fd st) (sv_ws_wakeup_pipe st)
      @ (map fst (sv_clients st) @ [fd]) @ map (\<lambda>p. s_master_fd (snd p)) (sv_sessions st)
      @ map snd (sv_pending_dup_fds st)"
    using none
    by (simp add: fd_list_def put_client_def get_client_def map_fst_update_new)
  have dist: "distinct (fd_list ?st)"
    using sv_wf_fds [OF wf] fd unfolding list by (auto simp: fd_list_def open_fds_def)
  have op: "open_fds ?st = insert fd (open_fds st)"
    unfolding open_fds_def list by (simp add: fd_list_def)
  have "session_watch ?st = session_watch st" "base_watch ?st = insert fd (base_watch st)"
    by (auto simp: session_watch_def base_watch_def server_simps)
  then have watch: "watch_set ?st = insert fd (watch_set st)" by (simp add: watch_set_split)
  have "session_ok st s \<Longrightarrow> session_ok ?st s" for s
    using none by (auto simp: session_ok_def server_simps)
  with wf dist sess have "sv_wf ?st" by (auto simp: sv_wf_def server_simps)
  moreover have "kernel_agrees (emit [Fd_open fd, Kq_add fd] ?st)"
    using fd by (simp add: kernel_agrees_emit [OF _ ka] op watch)
  ultimately show ?thesis
    using p by (simp add: sv_inv_def sv_core_def add_client_def server_simps)
qed

lemma accept_clients_inv:
  assumes "sv_inv st" "\<And>r fds fd. r \<in> set rs \<Longrightarrow> r fds = Accepted fd \<Longrightarrow> fd \<notin> fds"
  shows "sv_inv (snd (accept_clients rs st))"
  using assms
proof (induction rs arbitrary: st)
  case Nil
  then show ?case by simp
next
  case (Cons r rs)
  show ?case
  proof (cases "r (open_fds st)")
    case (Accepted fd)
    then have "sv_inv (add_client fd st)"
      using Cons.prems by (intro add_client_inv) auto
    then have "sv_inv (snd (accept_clients rs (add_client fd st)))"
      by (rule Cons.IH) (use Cons.prems(2) in auto)
    with Accepted show ?thesis by simp
  qed (use Cons.prems in simp_all)
qed

subsection \<open>Connections that go\<close>

text \<open>
  While a client's sessions are detached one by one, those that still wait have an owner that
  is no longer connected: the invariant but for a set of sessions.
\<close>

definition orphan_ok :: "server \<Rightarrow> session \<Rightarrow> bool" where
  "orphan_ok st s \<longleftrightarrow> s_state s = Attached \<and>
     (\<forall>c. s_previous_owner_fd s = Some c \<longrightarrow> get_client st c \<noteq> None)"

lemma orphan_ok_simps [server_simps]:
  "orphan_ok (emit calls st) s = orphan_ok st s" "orphan_ok (put_session sid s' st) s = orphan_ok st s"
  by (simp_all add: orphan_ok_def server_simps)

definition core_but :: "uuid set \<Rightarrow> server \<Rightarrow> bool" where
  "core_but A st \<longleftrightarrow>
     distinct (map fst (sv_sessions st)) \<and> distinct (fd_list st) \<and>
     (\<forall>fd c. get_client st fd = Some c \<longrightarrow> c_stream c = fd) \<and>
     (\<forall>sid s. get_session st sid = Some s \<longrightarrow> s_id s = sid \<and> 0 \<le> s_master_fd s \<and>
        (if sid \<in> A then orphan_ok st s else session_ok st s)) \<and>
     kernel_agrees st \<and> sv_pending_dup_fds st = []"

lemma core_but_empty: "core_but {} st = sv_inv st"
  by (auto simp: core_but_def sv_inv_def sv_core_def sv_wf_def)

lemma crash_detach_but:
  assumes core: "core_but A st" and sid: "sid \<in> A" and s: "get_session st sid = Some s"
    and run: "crash_detach (sid, s_master_fd s) st = Inr st'"
  shows "core_but (A - {sid}) st' \<and>
         (\<forall>k. k \<noteq> sid \<longrightarrow> get_session st' k = get_session st k) \<and> sv_clients st' = sv_clients st"
proof -
  from core have dist: "distinct (fd_list st)" and ka: "kernel_agrees st" and p: "sv_pending_dup_fds st = []"
    by (simp_all add: core_but_def)
  have "close_pending sid st = st"
    using p by (simp add: close_pending_def take_pending_def)
  with run s obtain s1 where st': "st' = emit [Kq_add (s_master_fd s)] (put_session sid (session_detach None s1) st)"
    and s1: "s_id s1 = s_id s" "s_master_fd s1 = s_master_fd s"
      "s_previous_owner_fd s1 = s_previous_owner_fd s"
    by (auto simp: crash_detach_def Let_def bind_res_Inr_iff)
  let ?s = "session_detach None s1" and ?st = "put_session sid (session_detach None s1) st"
  have m: "s_master_fd ?s = s_master_fd s" using s1 by simp
  have fds: "fd_list ?st = fd_list st" by (rule fd_list_simps(2) [OF s m])
  have "kernel_agrees (emit [Kq_add (s_master_fd s)] ?st)"
    using open_fdsI(1) [OF s] m
    by (simp add: kernel_agrees_emit [OF _ ka] watch_set_put_session [OF dist s m] open_fds_def fds)
  moreover have "distinct (map fst (sv_sessions ?st))"
    using core by (simp add: core_but_def put_session_def sm_put_def AList.distinct_update)
  moreover have "orphan_ok st s" "s_id s = sid" "0 \<le> s_master_fd s"
    using core sid s by (auto simp: core_but_def)
  then have "session_ok st ?s" "s_id ?s = sid" "0 \<le> s_master_fd ?s"
    using s1 by (simp_all add: orphan_ok_def session_ok_def)
  ultimately have "core_but (A - {sid}) (emit [Kq_add (s_master_fd s)] ?st)"
    using core fds unfolding core_but_def
    by (simp add: server_simps del: split_paired_All) (simp add: emit_def)
  then show ?thesis unfolding st' by (simp add: server_simps)
qed

lemma crash_detach_all:
  assumes "core_but (fst ` set ps) st" "distinct (map fst ps)"
    and "\<And>sid m. (sid, m) \<in> set ps \<Longrightarrow> \<exists>s. get_session st sid = Some s \<and> s_master_fd s = m"
    and "run_res (\<lambda>st p. crash_detach p st) st ps = Inr st'"
  shows "sv_inv st' \<and> sv_clients st' = sv_clients st"
  using assms
proof (induction ps arbitrary: st)
  case Nil
  then show ?case by (simp add: core_but_empty)
next
  case (Cons p ps)
  obtain sid m where p: "p = (sid, m)" by (cases p)
  with Cons.prems(3) obtain s where s: "get_session st sid = Some s" "s_master_fd s = m" by auto
  from Cons.prems(4) p obtain st1 where st1: "crash_detach (sid, s_master_fd s) st = Inr st1"
      "run_res (\<lambda>st p. crash_detach p st) st1 ps = Inr st'"
    using s by (auto simp: bind_res_Inr_iff)
  have "fst ` set (p # ps) - {sid} = fst ` set ps" using p Cons.prems(2) by auto
  with crash_detach_but [OF Cons.prems(1) _ s(1) st1(1)] p
  have c: "core_but (fst ` set ps) st1" "\<And>k. k \<noteq> sid \<Longrightarrow> get_session st1 k = get_session st k"
      "sv_clients st1 = sv_clients st" by auto
  have "\<exists>s. get_session st1 k = Some s \<and> s_master_fd s = n" if "(k, n) \<in> set ps" for k n
  proof -
    have "k \<noteq> sid" using that Cons.prems(2) p by force
    with c(2) Cons.prems(3) [of k n] that show ?thesis by simp
  qed
  with Cons.IH [OF c(1) _ _ st1(2)] Cons.prems(2) c(3) show ?case by simp
qed

definition remove_client :: "fd \<Rightarrow> server \<Rightarrow> server" where
  "remove_client fd st =
     st\<lparr>sv_clients := AList.delete fd (sv_clients st),
        sv_sessions := map (\<lambda>(k, s). (k, forget_previous_owner fd s)) (sv_sessions st)\<rparr>"

lemma forget_fields [simp]:
  "s_id (forget_previous_owner fd s) = s_id s"
  "s_master_fd (forget_previous_owner fd s) = s_master_fd s"
  "s_state (forget_previous_owner fd s) = s_state s"
  "s_owner_fd (forget_previous_owner fd s) = s_owner_fd s"
  "s_previous_owner_fd (forget_previous_owner fd s) =
     (if s_previous_owner_fd s = Some fd then None else s_previous_owner_fd s)"
  by (simp_all add: forget_previous_owner_def)

lemma remove_client_simps [server_simps]:
  "get_session (remove_client fd st) sid = map_option (forget_previous_owner fd) (get_session st sid)"
  "get_client (remove_client fd st) fd' = (if fd' = fd then None else get_client st fd')"
  "sv_pending_dup_fds (remove_client fd st) = sv_pending_dup_fds st"
  "sv_trace (remove_client fd st) = sv_trace st"
  "sv_listener_fd (remove_client fd st) = sv_listener_fd st"
  "sv_ws_wakeup_pipe (remove_client fd st) = sv_ws_wakeup_pipe st"
  "map fst (sv_sessions (remove_client fd st)) = map fst (sv_sessions st)"
  by (simp_all add: remove_client_def get_session_def sm_get_def get_client_def map_of_map
      AList.delete_conv' comp_def split_beta)

lemma session_watch_remove: "session_watch (remove_client fd st) = session_watch st"
proof -
  have "{s_master_fd t | t. get_session (remove_client fd st) k = Some t \<and> s_state t \<noteq> Attached} =
      {s_master_fd t | t. get_session st k = Some t \<and> s_state t \<noteq> Attached}" for k
    by (cases "get_session st k") (simp_all add: server_simps)
  then show ?thesis unfolding session_watch_UN by simp
qed

lemma fd_list_remove_client:
  "fd_list (remove_client fd st) = new_fds (sv_listener_fd st) (sv_ws_wakeup_pipe st)
     @ filter (\<lambda>x. x \<noteq> fd) (map fst (sv_clients st))
     @ map (\<lambda>p. s_master_fd (snd p)) (sv_sessions st) @ map snd (sv_pending_dup_fds st)"
proof -
  have "map fst (AList.delete fd xs) = filter (\<lambda>x. x \<noteq> fd) (map fst xs)" for xs :: "(fd \<times> client_state) list"
    by (induction xs) auto
  then show ?thesis
    by (simp add: fd_list_def remove_client_def split_beta comp_def)
qed

lemma distinct_middle_out:
  assumes "distinct (xs @ ys @ zs)" "y \<in> set ys"
  shows "y \<notin> set xs" "y \<notin> set zs"
  using assms by auto

lemma set_middle_filter:
  "y \<notin> set xs \<Longrightarrow> y \<notin> set (us @ vs) \<Longrightarrow>
   set (xs @ filter (\<lambda>x. x \<noteq> y) ys @ us @ vs) = set (xs @ ys @ us @ vs) - {y}"
  by auto

lemma remove_client_but:
  assumes inv: "sv_inv st" and c: "get_client st fd = Some c"
  shows "core_but {sid. \<exists>s. get_session st sid = Some s \<and> s_owner_fd s = Some fd}
           (emit [Kq_delete fd, Fd_close fd] (remove_client fd st))"
proof -
  let ?st = "remove_client fd st"
  from inv have wf: "sv_wf st" and ka: "kernel_agrees st" and p: "sv_pending_dup_fds st = []"
    by (simp_all add: sv_inv_def sv_core_def)
  have dist: "distinct (fd_list st)" using wf by (rule sv_wf_fds)
  have mem: "fd \<in> set (map fst (sv_clients st))" using get_clientD [OF c] by force
  have split: "fd_list st = new_fds (sv_listener_fd st) (sv_ws_wakeup_pipe st)
      @ map fst (sv_clients st) @ (map (\<lambda>p. s_master_fd (snd p)) (sv_sessions st)
      @ map snd (sv_pending_dup_fds st))"
    by (simp add: fd_list_def)
  have dist': "distinct (fd_list ?st)"
  proof -
    have "distinct (map fst (sv_clients st))"
      using dist unfolding split by (simp only: distinct_append)
    then have "distinct (filter (\<lambda>x. x \<noteq> fd) (map fst (sv_clients st)))" by (rule distinct_filter)
    moreover have "set (filter (\<lambda>x. x \<noteq> fd) (map fst (sv_clients st))) \<subseteq> set (map fst (sv_clients st))"
      by (rule filter_is_subset)
    ultimately show ?thesis
      unfolding fd_list_remove_client by (rule distinct_shrink [OF dist [unfolded split]])
  qed
  have op: "open_fds ?st = open_fds st - {fd}"
    using distinct_middle_out [OF dist [unfolded split] mem]
    unfolding open_fds_def fd_list_remove_client split by (rule set_middle_filter)
  have "fd \<notin> set (new_fds (sv_listener_fd st) (sv_ws_wakeup_pipe st))"
    using distinct_middle_out(1) [OF dist [unfolded split] mem] .
  then have notlisten: "fd \<noteq> sv_listener_fd st"
      "fd \<notin> (case sv_ws_wakeup_pipe st of None \<Rightarrow> {} | Some (rfd, wfd) \<Rightarrow> {rfd})"
    by (auto simp: new_fds_def split: option.splits)
  then have "base_watch ?st = base_watch st - {fd}"
    unfolding base_watch_def by (auto simp: server_simps)
  moreover have "fd \<notin> session_watch st"
    using sv_wf_masters(1) [OF dist] c unfolding session_watch_def by fastforce
  ultimately have watch: "watch_set ?st = watch_set st - {fd}"
    by (auto simp: watch_set_split session_watch_remove)
  have "kernel_agrees (emit [Kq_delete fd, Fd_close fd] ?st)"
    using open_fdsI(2) [OF c] by (simp add: kernel_agrees_emit [OF _ ka] server_simps op watch)
  moreover have "if \<exists>s. get_session st sid = Some s \<and> s_owner_fd s = Some fd
      then orphan_ok ?st (forget_previous_owner fd s) else session_ok ?st (forget_previous_owner fd s)"
    if "get_session st sid = Some s" for sid s
    using wf that by (auto simp: sv_wf_def orphan_ok_def session_ok_def server_simps)
  moreover have "sv_sessions (emit cs ?st) = sv_sessions ?st" for cs by (simp add: emit_def)
  ultimately show ?thesis
    using wf dist' p unfolding core_but_def
    by (auto simp: server_simps sv_wf_def)
qed

lemma sort_key_map: "sort_key f (map g xs) = map g (sort_key (\<lambda>x. f (g x)) xs)"
proof -
  have "insort_key f (g x) (map g xs) = map g (insort_key (\<lambda>x. f (g x)) x xs)" for x xs
    by (induction xs) auto
  then show ?thesis by (induction xs) simp_all
qed

lemma forget_created_at [simp]: "s_created_at (forget_previous_owner fd s) = s_created_at s"
  by (simp add: forget_previous_owner_def)

lemma owned_by_props:
  assumes "sv_wf st"
  shows "fst ` set (owned_by fd st) = {sid. \<exists>s. get_session st sid = Some s \<and> s_owner_fd s = Some fd}"
    and "distinct (map fst (owned_by fd st))"
    and "(sid, m) \<in> set (owned_by fd st) \<Longrightarrow> \<exists>s. get_session st sid = Some s \<and> s_master_fd s = m"
proof -
  have mem: "s \<in> snd ` set (sv_sessions st) \<longleftrightarrow> get_session st (s_id s) = Some s" for s
  proof
    assume "s \<in> snd ` set (sv_sessions st)"
    then obtain sid where "get_session st sid = Some s"
      using mem_sessions_iff [OF assms] by auto
    with assms show "get_session st (s_id s) = Some s" by (auto simp: sv_wf_def)
  qed (force dest: get_sessionD)
  have id: "get_session st sid = Some s \<Longrightarrow> s_id s = sid" for sid s
    using assms by (simp add: sv_wf_def)
  show "fst ` set (owned_by fd st) = {sid. \<exists>s. get_session st sid = Some s \<and> s_owner_fd s = Some fd}"
  proof (intro set_eqI iffI)
    fix sid assume "sid \<in> fst ` set (owned_by fd st)"
    then obtain s where "s \<in> set (sm_list (sv_sessions st))" "s_owner_fd s = Some fd" "sid = s_id s"
      by (auto simp: owned_by_def)
    then have "s \<in> snd ` set (sv_sessions st)" "s_owner_fd s = Some fd" "sid = s_id s"
      by (simp_all add: sm_list_def)
    with mem show "sid \<in> {sid. \<exists>s. get_session st sid = Some s \<and> s_owner_fd s = Some fd}" by auto
  next
    fix sid assume "sid \<in> {sid. \<exists>s. get_session st sid = Some s \<and> s_owner_fd s = Some fd}"
    then obtain s where s: "get_session st sid = Some s" "s_owner_fd s = Some fd" by blast
    with id mem have "s \<in> snd ` set (sv_sessions st)" by auto
    with s id [OF s(1)] show "sid \<in> fst ` set (owned_by fd st)"
      by (auto simp: owned_by_def sm_list_def image_iff)
  qed
  show "(sid, m) \<in> set (owned_by fd st) \<Longrightarrow> \<exists>s. get_session st sid = Some s \<and> s_master_fd s = m"
    using mem by (auto simp: owned_by_def sm_list_def)
  have "map s_id (map snd (sv_sessions st)) = map fst (sv_sessions st)"
    using assms by (auto simp: sv_wf_def mem_sessions_iff [OF assms])
  then have "distinct (map s_id (map snd (sv_sessions st)))"
    using sv_wf_distinct_keys [OF assms] by (simp only:)
  then have "distinct (map s_id (sm_list (sv_sessions st)))"
    unfolding sm_list_def distinct_map distinct_sort set_sort .
  then show "distinct (map fst (owned_by fd st))"
    by (simp add: owned_by_def comp_def distinct_map_filter)
qed

lemma disconnect_start:
  assumes "get_client st fd = Some c" "c_stream c = fd"
  shows "handle_client_disconnect fd st =
     (let st = emit [Kq_delete fd, Fd_close fd] (remove_client fd st)
      in run_res (\<lambda>st p. crash_detach p st) st (owned_by fd st))"
proof -
  have "(let st = emit [Kq_delete fd] st;
          closing = (case get_client st fd of None \<Rightarrow> [] | Some c \<Rightarrow> [Fd_close (c_stream c)]);
          st = emit closing (st\<lparr>sv_clients := AList.delete fd (sv_clients st)\<rparr>)
      in st\<lparr>sv_sessions := map (\<lambda>(k, s). (k, forget_previous_owner fd s)) (sv_sessions st)\<rparr>) =
      emit [Kq_delete fd, Fd_close fd] (remove_client fd st)"
    using assms
    by (simp add: Let_def server_simps) (simp add: emit_def remove_client_def)
  then show ?thesis by (simp add: handle_client_disconnect_def Let_def)
qed

lemma disconnect_inv:
  assumes inv: "sv_inv st" and c: "get_client st fd = Some c"
    and run: "handle_client_disconnect fd st = Inr st'"
  shows "sv_inv st' \<and> sv_clients st' = AList.delete fd (sv_clients st)"
proof -
  from inv have wf: "sv_wf st" by (simp add: sv_inv_def sv_core_def)
  then have "c_stream c = fd" using c by (simp add: sv_wf_def)
  let ?st = "emit [Kq_delete fd, Fd_close fd] (remove_client fd st)"
  have owned: "owned_by fd ?st = owned_by fd st"
    by (simp add: owned_by_def sm_list_def emit_def remove_client_def sort_key_map filter_map comp_def split_beta)
  from run have "run_res (\<lambda>st p. crash_detach p st) ?st (owned_by fd ?st) = Inr st'"
    unfolding disconnect_start [OF c \<open>c_stream c = fd\<close>] Let_def .
  moreover have "\<exists>s. get_session ?st sid = Some s \<and> s_master_fd s = m"
    if "(sid, m) \<in> set (owned_by fd ?st)" for sid m
    using owned_by_props(3) [OF wf] that owned by (fastforce simp: server_simps)
  ultimately show ?thesis
    using crash_detach_all [of "owned_by fd ?st" ?st st'] remove_client_but [OF inv c]
      owned_by_props(1,2) [OF wf, of fd] owned
    by (auto simp: emit_def remove_client_def)
qed

subsection \<open>Client data, children and output\<close>

lemma inv_pendingI: "sv_core st' \<Longrightarrow> sv_inv st \<Longrightarrow> sv_pending_dup_fds st' = sv_pending_dup_fds st \<Longrightarrow> sv_inv st'"
  by (simp add: sv_inv_def)

lemma client_data_inv:
  assumes inv: "sv_inv st" and env: "\<And>i. env_ok (E i)"
    and run: "handle_client_data E r fd st = Inr (ok, st')"
  shows "sv_inv st'"
proof (cases "get_client st fd")
  case None
  with run inv show ?thesis by (simp add: handle_client_data_def)
next
  case c: (Some c)
  show ?thesis
  proof (cases r)
    case Sock_eof
    with run c disconnect_inv [OF inv c] show ?thesis
      by (auto simp: handle_client_data_def bind_res_Inr_iff)
  next
    case (Sock_data d)
    let ?c = "c\<lparr>c_read_buf := c_read_buf c @ d\<rparr>"
    let ?st = "put_client fd ?c st"
    have "sv_core ?st" using inv c by (intro sv_core_put_client [where c = c]) (simp_all add: sv_inv_def)
    then have "sv_inv ?st" using inv by (simp add: sv_inv_def pending_simps)
    moreover have "get_client ?st fd = Some ?c" by (simp add: get_client_simps)
    ultimately have "case client_loop (Suc (length (c_read_buf ?c))) E fd ?st of
           Inl f \<Rightarrow> f = Panic
         | Inr st' \<Rightarrow> sv_inv st' \<and> (\<exists>c'. get_client st' fd = Some c' \<and>
             try_decode_message (e_dec_request (E 0)) (c_read_buf c') = None)"
      using env by (intro client_loop_core) auto
    with run c Sock_data show ?thesis
      by (auto simp: handle_client_data_def Let_def bind_res_Inr_iff simp del: client_loop.simps)
  next
    case Sock_would_block
    with run c inv show ?thesis by (simp add: handle_client_data_def)
  next
    case Sock_error
    with run c inv show ?thesis by (simp add: handle_client_data_def)
  qed
qed

lemma drop_session_kept [server_simps]:
  "sv_pending_dup_fds (drop_session e sid st) = sv_pending_dup_fds st"
  by (simp add: drop_session_def sm_remove_def pending_simps emit_def split: option.splits)

lemma child_exit_inv:
  assumes inv: "sv_inv st"
  shows "sv_inv (handle_child_exit e pid st)"
proof -
  let ?st = "emit [Wait_pid pid] st"
  have core: "sv_core st" using inv by (simp add: sv_inv_def)
  then have core': "sv_core ?st" by (rule sv_core_emit) simp
  have sess: "sv_sessions ?st = sv_sessions st" by (simp add: emit_def)
  show ?thesis
  proof (cases "find_by_child_pid (sv_sessions st) pid")
    case None
    with core' inv show ?thesis
      by (simp add: handle_child_exit_def Let_def sess sv_inv_def server_simps)
  next
    case (Some s)
    then have s: "get_session ?st (s_id s) = Some s"
      using find_by_get(2) [OF core'] sess by simp
    have "sv_core (notify_ended (s_id s) ?st)" "get_session (notify_ended (s_id s) ?st) (s_id s) = Some s"
      using core' s by (simp_all add: notify_get)
    from drop_session_core [OF this] have
        "sv_core (drop_session e (s_id s) (notify_ended (s_id s) (emit [Kq_delete (s_master_fd s)] ?st)))"
      by (simp add: notify_emit_commute)
    with Some inv show ?thesis
      by (simp add: handle_child_exit_def Let_def sess sv_inv_def server_simps)
  qed
qed

lemma output_inv:
  assumes inv: "sv_inv st" and run: "handle_session_output e r fd st = Inr st'"
  shows "sv_inv st'"
proof (cases "find_by_master_fd (sv_sessions st) fd")
  case None
  with run inv show ?thesis by (simp add: handle_session_output_def)
next
  case (Some s)
  have core: "sv_core st" using inv by (simp add: sv_inv_def)
  with find_by_get(1) [OF core Some] have s: "get_session st (s_id s) = Some s" "s_master_fd s = fd"
    by auto
  show ?thesis
  proof (cases "s_state s = Attached")
    case True
    with Some s run inv show ?thesis by (simp add: handle_session_output_def Let_def)
  next
    case False
    show ?thesis
    proof (cases r)
      case (Pty_data d)
      with Some s run False obtain s' ws where st':
          "st' = put_session (s_id s) s' (st\<lparr>sv_ws_sent := ws\<rparr>)"
        and s': "s_id s' = s_id s" "s_master_fd s' = s_master_fd s" "s_state s' \<noteq> Attached"
          "s_owner_fd s' = s_owner_fd s" "s_previous_owner_fd s' = s_previous_owner_fd s"
        by (auto simp: handle_session_output_def Let_def bind_res_Inr_iff promote_to_active_def
            split: if_splits)
      have core2: "sv_core (st\<lparr>sv_ws_sent := ws\<rparr>)" using core by simp
      have s2: "get_session (st\<lparr>sv_ws_sent := ws\<rparr>) (s_id s) = Some s"
        using s by (simp add: get_session_def)
      have "session_ok (st\<lparr>sv_ws_sent := ws\<rparr>) s'"
        using sv_coreD(2) [OF core2 s2] s' False by (auto simp: session_ok_def)
      then have "sv_core st'"
        unfolding st' using s' False by (intro sv_core_put_same [OF core2 s2]) auto
      then show ?thesis using inv unfolding st' by (simp add: sv_inv_def server_simps)
    next
      case Pty_eof
      with Some s run False have "st' = drop_session e (s_id s) (emit [Kq_delete (s_master_fd s)] st)"
        by (simp add: handle_session_output_def Let_def)
      with drop_session_core [OF core s(1)] inv show ?thesis
        by (simp add: sv_inv_def server_simps)
    next
      case Pty_would_block
      with Some s run False inv show ?thesis by (simp add: handle_session_output_def Let_def)
    next
      case Pty_error
      with Some s run False inv show ?thesis by (simp add: handle_session_output_def Let_def)
    qed
  qed
qed

subsection \<open>Maintenance\<close>

definition set_sessions :: "session_map \<Rightarrow> server \<Rightarrow> server" where
  "set_sessions m st = st\<lparr>sv_sessions := m\<rparr>"

lemma set_sessions_del: "set_sessions (AList.delete sid (sv_sessions st)) st = del_session sid st"
  by (simp add: set_sessions_def del_session_def)

lemma set_sessions_del_emit: "set_sessions m (emit cs (del_session sid st)) = emit cs (set_sessions m st)"
  by (simp add: set_sessions_def del_session_def emit_def)

lemma reap_each_core:
  assumes "sv_core st" "distinct (map fst dead)"
    and "\<And>sid fd. (sid, fd) \<in> set dead \<Longrightarrow> \<exists>s. get_session st sid = Some s \<and> s_master_fd s = fd"
    and "reap_each alive dead (sv_sessions st) = (m, calls)"
  shows "sv_core (emit calls (set_sessions m st)) \<and>
         open_fds (set_sessions m st) = open_fds st - snd ` set dead"
  using assms
proof (induction dead arbitrary: st m calls)
  case Nil
  then have "set_sessions m st = st" "calls = []" by (auto simp: set_sessions_def)
  with Nil.prems(1) show ?case by simp
next
  case (Cons p dead)
  obtain sid fd where p: "p = (sid, fd)" by (cases p)
  with Cons.prems(3) obtain s where s: "get_session st sid = Some s" "s_master_fd s = fd" by auto
  then have lookup: "map_of (sv_sessions st) sid = Some s" by (simp add: get_session_def sm_get_def)
  obtain calls' where r: "reap_each alive dead (AList.delete sid (sv_sessions st)) = (m, calls')"
    and calls: "calls = Wait_pid (s_child_pid s) # session_drop alive s @ calls'"
    using Cons.prems(4) p lookup by (auto split: prod.splits)
  let ?cs = "Wait_pid (s_child_pid s) # session_drop alive s"
  let ?st = "emit ?cs (del_session sid st)"
  note D = sv_coreD [OF Cons.prems(1) s(1)]
  have core: "sv_core ?st"
    using D(3,5) by (intro sv_core_del [OF Cons.prems(1) s(1)]) (simp add: session_drop_run)
  have "sv_sessions ?st = AList.delete sid (sv_sessions st)" by (simp add: del_session_def emit_def)
  with r have r': "reap_each alive dead (sv_sessions ?st) = (m, calls')" by simp
  have found: "\<exists>s. get_session ?st k = Some s \<and> s_master_fd s = n" if "(k, n) \<in> set dead" for k n
  proof -
    have "k \<noteq> sid" using that Cons.prems(2) p by force
    then show ?thesis using that Cons.prems(3) [of k n] by (simp add: server_simps)
  qed
  have "distinct (map fst dead)" using Cons.prems(2) by simp
  from Cons.IH [OF core this found r'] have
      "sv_core (emit calls' (set_sessions m ?st))" "open_fds (set_sessions m ?st) = open_fds ?st - snd ` set dead"
    by auto
  then show ?case
    using calls p s Cons.prems(1)
    by (auto simp: set_sessions_del_emit server_simps sv_core_def open_fds_del)
qed

lemma notify_kq_core:
  assumes "sv_core st" "\<And>sid fd. (sid, fd) \<in> set dead \<Longrightarrow> fd \<notin> open_fds st"
  shows "sv_core (fold (\<lambda>(sid, fd) st. notify_ended sid (emit [Kq_delete fd] st)) dead st)"
  using assms
proof (induction dead arbitrary: st)
  case Nil
  then show ?case by simp
next
  case (Cons p dead)
  obtain sid fd where p: "p = (sid, fd)" by (cases p)
  then have "fd \<notin> watch_set st" using Cons.prems(2) watch_subset_open [of st] by auto
  then have "sv_core (emit [Kq_delete fd] st)"
    using Cons.prems(1) by (intro sv_core_emit) simp_all
  then have "sv_core (notify_ended sid (emit [Kq_delete fd] st))" by simp
  moreover have "n \<notin> open_fds (notify_ended sid (emit [Kq_delete fd] st))" if "(k, n) \<in> set dead" for k n
    using Cons.prems(2) [of k n] that by (simp add: notify_get open_fds_simps)
  ultimately have "sv_core (fold (\<lambda>(sid, fd) st. notify_ended sid (emit [Kq_delete fd] st)) dead
      (notify_ended sid (emit [Kq_delete fd] st)))"
    by (rule Cons.IH)
  then show ?case using p by simp
qed

lemma fold_notify_pending:
  "sv_pending_dup_fds (fold (\<lambda>(sid, fd) st. notify_ended sid (emit [Kq_delete fd] st)) dead st) =
   sv_pending_dup_fds st"
  by (induction dead arbitrary: st) (auto simp: server_simps)

lemma reap_inv:
  assumes inv: "sv_inv st"
  shows "sv_inv (reap_sessions e st)"
proof -
  have core: "sv_core st" using inv by (simp add: sv_inv_def)
  then have wf: "sv_wf st" by (simp add: sv_core_def)
  let ?dead = "map (\<lambda>(sid, s). (sid, s_master_fd s))
      (filter (\<lambda>(sid, s). \<not> is_child_alive (e_alive e) s) (sv_sessions st))"
  obtain m calls where r: "reap_each (e_alive e) ?dead (sv_sessions st) = (m, calls)" by fastforce
  have "distinct (map fst (filter P (sv_sessions st)))" for P
    using sv_wf_distinct_keys [OF wf] by (rule distinct_map_filter)
  then have "distinct (map fst ?dead)" by (simp add: comp_def split_beta)
  moreover have "\<exists>s. get_session st sid = Some s \<and> s_master_fd s = fd" if "(sid, fd) \<in> set ?dead" for sid fd
    using that mem_sessions_iff [OF wf] by auto
  ultimately have "sv_core (emit calls (set_sessions m st))"
      "open_fds (set_sessions m st) = open_fds st - snd ` set ?dead"
    using reap_each_core [OF core _ _ r] by blast+
  then have "sv_core (fold (\<lambda>(sid, fd) st. notify_ended sid (emit [Kq_delete fd] st)) ?dead
      (emit calls (set_sessions m st)))"
    by (intro notify_kq_core) (force simp: server_simps)+
  moreover have "sv_pending_dup_fds (set_sessions m st) = []" using inv
    by (simp add: set_sessions_def sv_inv_def)
  ultimately show ?thesis
    using r by (simp add: reap_sessions_def reap_dead_def Let_def sv_inv_def fold_notify_pending pending_simps
        flip: set_sessions_def)
qed

subsection \<open>Commands of WebSocket clients\<close>

lemma takeover_pending [server_simps]:
  "sv_pending_dup_fds (snd (wait_for_detach_ack e fd sid st)) = sv_pending_dup_fds st"
  "sv_pending_dup_fds (snd (force_complete_takeover sid d st)) = sv_pending_dup_fds st"
  by (simp_all add: wait_for_detach_ack_def force_complete_takeover_def pending_simps
      split: option.splits prod.splits)

lemma baton_pending [server_simps]:
  "sv_pending_dup_fds (snd (handle_baton_takeover e sid st)) = sv_pending_dup_fds st"
  "sv_pending_dup_fds (snd (handle_baton_release e sid st)) = sv_pending_dup_fds st"
  by (simp_all add: handle_baton_takeover_def handle_baton_release_def Let_def server_simps split_beta
      split: option.splits)

lemma ws_detach_pending [server_simps]:
  "sv_pending_dup_fds (snd (handle_ws_detach e cid sid st)) = sv_pending_dup_fds st"
  by (simp add: handle_ws_detach_def Let_def server_simps split: option.splits)

lemma ws_disconnect_pending [server_simps]:
  "sv_pending_dup_fds (handle_ws_client_disconnect e cid st) = sv_pending_dup_fds st"
  by (simp add: handle_ws_client_disconnect_def Let_def server_simps split: option.splits)

lemma ws_attach_pending:
  "handle_ws_attach e cid sid st = Inr (resp, st') \<Longrightarrow> sv_pending_dup_fds st' = sv_pending_dup_fds st"
  by (auto simp: handle_ws_attach_def Let_def bind_res_Inr_iff server_simps split: option.splits if_splits)

lemma ws_request_inv:
  assumes inv: "sv_inv st" and env: "env_ok e" and run: "ws_request e cid req st = Inr (resp, st')"
  shows "sv_inv st'"
proof -
  have core: "sv_core st" using inv by (simp add: sv_inv_def)
  consider (attach) sid where "req = Req_Attach sid" | (detach) sid c r d where "req = Req_Detach sid c r d"
    | (other) "\<And>sid. req \<noteq> Req_Attach sid" "ws_request e cid req st = handle_request e (-1) req st"
    by (cases req) (auto simp: ws_request_def)
  then show ?thesis
  proof cases
    case attach
    with run have "handle_ws_attach e cid sid st = Inr (resp, st')" by (simp add: ws_request_def)
    with ws_attach_core [OF core] ws_attach_pending inv show ?thesis by (auto simp: sv_inv_def)
  next
    case detach
    with run have "st' = snd (handle_ws_detach e cid sid st)" by (simp add: ws_request_def)
    with ws_detach_core [OF core env] inv show ?thesis by (simp add: sv_inv_def server_simps)
  next
    case other
    with run have req: "handle_request e (-1) req st = Inr (resp, st')" by simp
    have "\<not> (\<exists>sid a b c d f. resp = AttachReady sid a b c d f)"
      using req other(1)
      by (auto simp: handle_request_def handle_create_def handle_detach_def handle_kill_def
          handle_winsize_update_def handle_remote_input_def handle_list_def Let_def sm_remove_def
          split: request.splits option.splits prod.splits sum.splits)
    with request_core [OF inv env _ req] other(1) show ?thesis
      by (auto simp: pending_for_def sv_inv_def split: response.splits)
  qed
qed

lemma ws_command_inv:
  assumes inv: "sv_inv st" and env: "env_ok e" and run: "handle_ws_command e cmd st = Inr st'"
  shows "sv_inv st'"
proof -
  have core: "sv_core st" using inv by (simp add: sv_inv_def)
  show ?thesis
  proof (cases cmd)
    case (Wc_request cid req)
    with run ws_request_inv [OF inv env] show ?thesis
      by (auto simp: handle_ws_command_def bind_res_Inr_iff)
  next
    case (Wc_disconnected cid)
    with run inv ws_disconnect_core [OF core env] show ?thesis
      by (auto simp: handle_ws_command_def sv_inv_def server_simps)
  next
    case (Wc_input sid d)
    with run inv ws_input_core [OF core] show ?thesis
      by (auto simp: handle_ws_command_def sv_inv_def server_simps)
  qed
qed

lemma drain_inv:
  assumes "sv_inv st" "\<And>e cmd. (e, cmd) \<in> set cmds \<Longrightarrow> env_ok e"
    and "drain_ws_commands cmds disc st = Inr st'"
  shows "sv_inv st'"
proof -
  have "sv_inv st'" if "sv_inv st" "run_res (\<lambda>st (e, cmd). handle_ws_command e cmd st) st cmds = Inr st'" for st
    using that assms(2)
  proof (induction cmds arbitrary: st)
    case Nil
    then show ?case by simp
  next
    case (Cons p cmds)
    obtain e cmd where p: "p = (e, cmd)" by (cases p)
    with Cons.prems(2) obtain st1 where "handle_ws_command e cmd st = Inr st1"
        "run_res (\<lambda>st (e, cmd). handle_ws_command e cmd st) st1 cmds = Inr st'"
      by (auto simp: bind_res_Inr_iff)
    moreover have "env_ok e" using Cons.prems(3) p by auto
    moreover have "env_ok e'" if "(e', cmd') \<in> set cmds" for e' cmd'
      using Cons.prems(3) that by auto
    ultimately show ?case
      using ws_command_inv [OF Cons.prems(1)] Cons.IH [of st1] by blast
  qed
  from this [of "if disc then st\<lparr>sv_ws_cmd_open := False\<rparr> else st"] assms(1,3) show ?thesis
    by (auto simp: drain_ws_commands_def split: if_splits)
qed

lemma idle_inv: "sv_inv st \<Longrightarrow> sv_inv (snd (idle_check now st))"
  by (simp add: idle_check_def Let_def split: option.splits)

lemma dispatch_inv:
  assumes inv: "sv_inv st" and env: "\<And>i. env_ok (E i)" and run: "dispatch_event E ev st = Inr (ctl, st')"
  shows "sv_inv st'"
proof -
  have "sv_inv (snd (accept_clients (e_accepts (E 0)) st))"
    using env_okD(3) [OF env] by (intro accept_clients_inv [OF inv]) blast
  moreover have "sv_inv st''" if "handle_client_disconnect fd st = Inr st''" "get_client st fd \<noteq> None" for fd st''
    using that disconnect_inv [OF inv] by blast
  ultimately show ?thesis
    using run inv client_data_inv [OF inv env] child_exit_inv [OF inv] output_inv [OF inv]
    by (auto simp: dispatch_event_def Let_def bind_res_Inr_iff ctl_of_def split: if_splits)
qed

lemma dispatch_all_inv:
  assumes "sv_inv st" "\<And>E ev i. (E, ev) \<in> set evs \<Longrightarrow> env_ok (E i)"
    and "dispatch_events evs st = Inr (ok, st')"
  shows "sv_inv st'"
  using assms
proof (induction evs arbitrary: st)
  case Nil
  then show ?case by simp
next
  case (Cons p evs)
  obtain E ev where p: "p = (E, ev)" by (cases p)
  with Cons.prems(3) obtain ctl st1 where d: "dispatch_event E ev st = Inr (ctl, st1)"
    and rest: "(case ctl of Go_on \<Rightarrow> dispatch_events evs st1 | Break_events \<Rightarrow> Inr (True, st1)
       | Io_failed \<Rightarrow> Inr (False, st1)) = Inr (ok, st')"
    by (auto simp: bind_res_Inr_iff)
  have "sv_inv st1" using dispatch_inv [OF Cons.prems(1) _ d] Cons.prems(2) p by auto
  with rest Cons.IH Cons.prems(2) show ?case by (cases ctl) auto
qed

text \<open>One turn of the loop against a kernel that keeps its contract.\<close>

definition turn_env_ok :: "env \<Rightarrow> (env \<times> ws_command) list \<Rightarrow> kevent_result \<Rightarrow> bool" where
  "turn_env_ok e cmds result \<longleftrightarrow> env_ok e \<and> (\<forall>(e', cmd) \<in> set cmds. env_ok e') \<and>
     (case result of Kev_events evs \<Rightarrow> \<forall>(E, ev) \<in> set evs. \<forall>i. env_ok (E i) | _ \<Rightarrow> True)"

lemma loop_turn_inv:
  assumes inv: "sv_inv st" and env: "turn_env_ok e cmds result"
    and run: "loop_turn e cmds disc result st = Inr (ok, st')"
  shows "sv_inv st'"
proof -
  from run obtain st1 where d: "drain_ws_commands cmds disc (reap_sessions e st) = Inr st1"
    by (auto simp: loop_turn_def bind_res_Inr_iff)
  have "sv_inv st1"
    using env by (intro drain_inv [OF reap_inv [OF inv] _ d]) (auto simp: turn_env_ok_def)
  then have "sv_inv (snd (idle_check (e_now e) st1))" by (rule idle_inv)
  moreover have "\<And>E ev i. (E, ev) \<in> set evs \<Longrightarrow> env_ok (E i)" if "result = Kev_events evs" for evs
    using env that by (auto simp: turn_env_ok_def)
  ultimately show ?thesis
    using run d dispatch_all_inv
    by (fastforce simp: loop_turn_def split: prod.splits if_splits kevent_result.splits)
qed

end
