(* ===== verification/Server_Props.thy ===== *)
theory Server_Props
  imports Server_Reach
begin

section \<open>What holds in every state the daemon can reach\<close>

text \<open>
  The reachable states as an inductive predicate, a demonstration run for the witnesses, and the
  invariants of all reachable states with what follows for requests on a connection.
\<close>

subsection \<open>Reachable states\<close>

text \<open>
  A run of the daemon: it starts with its listener and its wake-up pipe registered and then
  takes turns of the loop, against any behaviour of clients, children and kernel the contract
  allows. Between the turns the WebSocket tasks change the subscriptions, and a local client
  that is attached writes to the shared mapping of its session; both do so arbitrarily.
\<close>

inductive sv_reach :: "server \<Rightarrow> bool" where
  start: "distinct (new_fds listener pipe) \<Longrightarrow>
    sv_reach (server_start (server_new path listener pipe now))"
| turn: "sv_reach st \<Longrightarrow> turn_env_ok e cmds result \<Longrightarrow>
    loop_turn e cmds disc result st = Inr (ok, st') \<Longrightarrow> sv_reach st'"
| ws_tasks: "sv_reach st \<Longrightarrow> sv_reach (st\<lparr>sv_ws_shared := w\<rparr>)"
| ring_write: "sv_reach st \<Longrightarrow> get_session st sid = Some s \<Longrightarrow>
    sv_reach (put_session sid (s\<lparr>s_ring_mem := m\<rparr>) st)"

lemma kern_run_opens:
  "distinct fds \<Longrightarrow> set fds \<inter> op = {} \<Longrightarrow>
   kern_run (op, w) (map Fd_open fds) = Some (op \<union> set fds, w)"
proof (induction fds arbitrary: op)
  case Nil
  then show ?case by simp
next
  case (Cons fd fds)
  then have "kern_run (insert fd op, w) (map Fd_open fds) = Some (insert fd op \<union> set fds, w)"
    by (intro Cons.IH) auto
  with Cons.prems show ?case by simp
qed

lemma start_inv:
  assumes "distinct (new_fds listener pipe)"
  shows "sv_inv (server_start (server_new path listener pipe now))"
proof -
  let ?st = "server_new path listener pipe now"
  have empty: "get_session ?st sid = None" "get_client ?st fd = None" for sid fd
    by (simp_all add: server_new_def get_session_def sm_get_def get_client_def)
  have fds: "fd_list ?st = new_fds listener pipe"
    by (simp add: fd_list_def server_new_def)
  have "sv_wf ?st" using assms empty fds
    by (simp add: sv_wf_def) (simp add: server_new_def)
  moreover have "kernel_agrees (server_start ?st)"
  proof -
    have "kern_run ({}, {}) (sv_trace ?st) = Some (open_fds ?st, {})"
      using kern_run_opens [OF assms, of "{}"] fds by (simp add: server_new_def open_fds_def)
    moreover have "watch_set ?st = insert listener
        (case pipe of None \<Rightarrow> {} | Some (rfd, wfd) \<Rightarrow> {rfd})"
      using empty by (simp add: watch_set_def) (simp add: server_new_def)
    moreover have "listener \<in> open_fds ?st" "pipe = Some (rfd, wfd) \<Longrightarrow> rfd \<in> open_fds ?st" for rfd wfd
      using fds by (auto simp: open_fds_def new_fds_def)
    moreover have "sv_listener_fd ?st = listener" "sv_ws_wakeup_pipe ?st = pipe"
      by (simp_all add: server_new_def)
    ultimately show ?thesis
      unfolding kernel_agrees_def server_start_def
      by (simp add: server_simps) (auto simp: emit_def kern_run_append split: option.splits)
  qed
  moreover have "sv_pending_dup_fds ?st = []" by (simp add: server_new_def)
  ultimately show ?thesis
    by (simp add: sv_inv_def sv_core_def server_start_def server_simps)
qed

lemma reach_inv: "sv_reach st \<Longrightarrow> sv_inv st"
proof (induction rule: sv_reach.induct)
  case (start listener pipe path now)
  then show ?case by (rule start_inv)
next
  case (turn st e cmds result disc ok st')
  then show ?case using loop_turn_inv by blast
next
  case (ws_tasks st w)
  then show ?case by simp
next
  case (ring_write st sid s m)
  then have "sv_core (put_session sid (s\<lparr>s_ring_mem := m\<rparr>) st)"
    by (intro sv_core_put_quiet [where s = s]) (simp_all add: sv_inv_def)
  with ring_write.IH show ?case by (simp add: sv_inv_def server_simps)
qed

subsection \<open>A reachable state with a session\<close>

definition demo_shm :: shm_os where
  "demo_shm = \<lparr>so_open = 3, so_page_size = 4096, so_ftruncate = 0, so_fstat = None,
     so_mmap = (\<lambda>n. Some (replicate n 0))\<rparr>"

text \<open>A kernel that answers every call with a fixed free descriptor, or fails.\<close>

definition demo_env :: env where
  "demo_env = \<lparr>e_capture = (\<lambda>cs. []), e_b64_encode = (\<lambda>b. []), e_b64_decode = (\<lambda>s. None),
     e_dec_request = (\<lambda>b. if b = [] then Inr (Req_Create None 80 24 None None None)
                           else Inr (Req_Attach 7)),
     e_dec_push_ack = (\<lambda>b. Inr (DetachAck 7 None)), e_now = 0, e_alive = (\<lambda>p. True),
     e_dup = (\<lambda>fds fd. if 20 \<in> fds then -1 else 20),
     e_write_ok = (\<lambda>fd. True), e_send_fd_ok = (\<lambda>fd. True), e_ack_reads = [Ack_data [0, 0, 0, 0]],
     e_pty = (\<lambda>fds sh c r d t v. if 11 \<in> fds then None else Some (11, 100, ''/dev/ttys1'')),
     e_uuid = 7, e_shm = demo_shm, e_pty_writes = [], e_sock_read = Sock_data [0, 0, 0, 0],
     e_pty_read = Pty_would_block,
     e_accepts = [\<lambda>fds. if 10 \<in> fds then Accept_would_block else Accepted 10]\<rparr>"

lemma demo_env_ok: "env_ok (demo_env\<lparr>e_sock_read := r\<rparr>)" "env_ok demo_env"
  by (auto simp: env_ok_def demo_env_def split: if_splits)

definition ev_on :: "fd \<Rightarrow> kevent" where
  "ev_on fd = \<lparr>ev_ident = fd, ev_filter = Filt_read, ev_eof = False\<rparr>"

definition demo_turn :: "env \<Rightarrow> fd \<Rightarrow> server \<Rightarrow> (bool \<times> server) res" where
  "demo_turn e fd = loop_turn e [] False (Kev_events [(\<lambda>i. e, ev_on fd)])"

definition demo_start :: server where
  "demo_start = server_start (server_new ''/tmp/ptyd.sock'' 5 (Some (6, 8)) 0)"

definition demo_after :: "env \<Rightarrow> fd \<Rightarrow> server \<Rightarrow> server" where
  "demo_after e fd st = (case demo_turn e fd st of Inl f \<Rightarrow> st | Inr (ok, st') \<Rightarrow> st')"

definition demo_connected :: server where
  "demo_connected = demo_after demo_env 5 demo_start"

definition demo_created :: server where
  "demo_created = demo_after demo_env 10 demo_connected"

definition demo_attached :: server where
  "demo_attached = demo_after (demo_env\<lparr>e_sock_read := Sock_data [0, 0, 0, 1, 65]\<rparr>) 10 demo_created"

lemma demo_after_reach:
  assumes "sv_reach st" "env_ok e"
  shows "sv_reach (demo_after e fd st)"
proof (cases "demo_turn e fd st")
  case (Inl f)
  with assms show ?thesis by (simp add: demo_after_def)
next
  case (Inr p)
  obtain ok st' where "p = (ok, st')" by (cases p)
  with Inr have "loop_turn e [] False (Kev_events [(\<lambda>i. e, ev_on fd)]) st = Inr (ok, st')"
    by (simp add: demo_turn_def)
  moreover have "turn_env_ok e [] (Kev_events [(\<lambda>i. e, ev_on fd)])"
    using assms(2) by (simp add: turn_env_ok_def)
  ultimately have "sv_reach st'" using sv_reach.turn [OF assms(1)] by blast
  with Inr \<open>p = (ok, st')\<close> show ?thesis by (simp add: demo_after_def)
qed

lemma demo_reach: "sv_reach demo_start" "sv_reach demo_connected" "sv_reach demo_created" "sv_reach demo_attached"
proof -
  show start: "sv_reach demo_start"
    unfolding demo_start_def by (rule sv_reach.start) (simp add: new_fds_def)
  show connected: "sv_reach demo_connected"
    unfolding demo_connected_def by (intro demo_after_reach start demo_env_ok)
  show created: "sv_reach demo_created"
    unfolding demo_created_def by (intro demo_after_reach connected demo_env_ok)
  show "sv_reach demo_attached"
    unfolding demo_attached_def by (intro demo_after_reach created demo_env_ok)
qed

lemmas demo_run = demo_after_def demo_turn_def loop_turn_def reap_sessions_def reap_dead_def
  drain_ws_commands_def idle_check_def idle_timeout_def sm_count_def ev_on_def dispatch_event_def ctl_of_def

lemma demo_connected_eq:
  "demo_connected = demo_start\<lparr>sv_clients := [(10, \<lparr>c_stream = 10, c_read_buf = []\<rparr>)],
     sv_trace := sv_trace demo_start @ [Fd_open 10, Kq_add 10]\<rparr>"
  unfolding demo_connected_def demo_start_def server_start_def server_new_def new_fds_def emit_def
  by (simp add: demo_run Let_def demo_env_def add_client_def put_client_def emit_def open_fds_def fd_list_def
      new_fds_def ws_new_def)

lemma hex_digit_not_nul: "d < 16 \<Longrightarrow> hex_digit d \<noteq> CHR 0x00"
proof -
  assume "d < 16"
  then have "hex_digit d \<in> set ''0123456789abcdef''"
    unfolding hex_digit_def by (intro nth_mem) simp
  then show ?thesis by auto
qed

lemma shm_name_c_string: "c_string_ok (shm_name_for_session sid)"
proof -
  have "CHR 0x00 \<noteq> hex_digit (k mod 16)" for k
    using hex_digit_not_nul [of "k mod 16"] by simp
  then have "CHR 0x00 \<notin> set (uuid_prefix sid)"
    by (simp add: uuid_prefix_def image_iff)
  then show ?thesis by (simp add: c_string_ok_def shm_name_for_session_def)
qed

lemma demo_session_new:
  "\<exists>s cs. session_new 0 7 demo_shm 11 100 name ws tid = (Inr s, map Shm_sys cs) \<and> s_id s = 7 \<and>
     s_master_fd s = 11 \<and> s_child_pid s = 100 \<and> s_state s = Active \<and> s_owner_fd s = None \<and>
     s_previous_owner_fd s = None \<and> ring_holds s []"
proof -
  have "fst (session_new 0 7 demo_shm 11 100 name ws tid) \<noteq> Inl f" for f
    using shm_name_c_string
    by (simp add: session_new_def Let_def demo_shm_def shm_create_def split: prod.splits)
  then obtain s where s: "fst (session_new 0 7 demo_shm 11 100 name ws tid) = Inr s"
    by (cases "fst (session_new 0 7 demo_shm 11 100 name ws tid)") auto
  obtain cs where "snd (session_new 0 7 demo_shm 11 100 name ws tid) = map Shm_sys cs"
    using session_new_calls by blast
  moreover have "ring_holds s []"
  proof -
    obtain r m cs' where c: "shm_create demo_shm (shm_name_for_session 7) rb_default_ring_size = (Inr (r, m), cs')"
      using s by (auto simp: session_new_def Let_def split: sum.splits prod.splits)
    then have "sr_rep (r, m) []"
      using shm_create_ok [OF c] by (simp add: rb_default_ring_size_def demo_shm_def del: sr_rep.simps)
    with s c show ?thesis by (auto simp: session_new_def Let_def ring_holds_def simp del: sr_rep.simps)
  qed
  ultimately show ?thesis using s session_new_fields [OF s] by (metis prod.collapse)
qed

text \<open>After the client's request to create a session, and then after its request to attach it.\<close>

lemma demo_created_eq:
  "\<exists>s. get_session demo_created 7 = Some s \<and> s_state s = Active \<and> s_master_fd s = 11 \<and>
     s_owner_fd s = None \<and> sv_clients demo_created = [(10, \<lparr>c_stream = 10, c_read_buf = []\<rparr>)] \<and>
     ring_holds s []"
proof -
  obtain s cs where s: "session_new 0 7 demo_shm 11 100 ''/dev/ttys1'' \<lparr>ws_cols = 80, ws_rows = 24\<rparr> None =
      (Inr s, map Shm_sys cs)" "s_id s = 7" "s_master_fd s = 11" "s_child_pid s = 100" "s_state s = Active"
      "s_owner_fd s = None" "ring_holds s []"
    using demo_session_new by blast
  have decode: "try_decode_message f [0, 0, 0, 0] = Some (f [], 4)" "try_decode_message f [] = None" for f :: "bytes \<Rightarrow> string + request"
    by (simp_all add: try_decode_message_def be_nat_def)
  show ?thesis
    unfolding demo_created_def demo_connected_eq demo_start_def server_start_def server_new_def new_fds_def emit_def
    using s
    by (simp add: demo_run Let_def demo_env_def get_client_def handle_client_data_def decode
        answer_def handle_request_def handle_create_def get_session_def sm_get_def sm_add_def emit_def
        put_client_def open_fds_def fd_list_def new_fds_def send_response_def finish_attach_def)
qed

lemma demo_attached_eq:
  "\<exists>s. get_session demo_attached 7 = Some s \<and> s_state s = Attached \<and> s_master_fd s = 11 \<and>
     s_owner_fd s = Some 10 \<and> sv_clients demo_attached = [(10, \<lparr>c_stream = 10, c_read_buf = []\<rparr>)] \<and>
     open_fds demo_attached = {5, 6, 8, 10, 11} \<and> ring_holds s [] \<and> map fst (sv_sessions demo_attached) = [7] \<and>
     s_child_pid s = 100 \<and> sv_listener_fd demo_attached = 5"
proof -
  obtain s cs where s: "session_new 0 7 demo_shm 11 100 ''/dev/ttys1'' \<lparr>ws_cols = 80, ws_rows = 24\<rparr> None =
      (Inr s, map Shm_sys cs)" "s_id s = 7" "s_master_fd s = 11" "s_child_pid s = 100" "s_state s = Active"
      "s_owner_fd s = None" "sr_rep (s_shared_ring s, s_ring_mem s) []"
    using demo_session_new unfolding ring_holds_def by blast
  have decode: "try_decode_message f [0, 0, 0, 0] = Some (f [], 4)"
      "try_decode_message f [0, 0, 0, 1, 65] = Some (f [65], 5)" "try_decode_message f [] = None"
    for f :: "bytes \<Rightarrow> string + request"
    by (simp_all add: try_decode_message_def be_nat_def)
  show ?thesis
    unfolding demo_attached_def demo_created_def demo_connected_eq demo_start_def server_start_def
      server_new_def new_fds_def emit_def
    using s
    by (simp add: demo_run Let_def demo_env_def get_client_def handle_client_data_def decode
        answer_def handle_request_def handle_create_def get_session_def sm_get_def sm_add_def emit_def
        put_client_def open_fds_def fd_list_def new_fds_def send_response_def finish_attach_def
        is_child_alive_def handle_attach_def put_session_def sm_put_def send_attach_data_def take_pending_def
        ring_holds_def session_attach_def refresh_snapshot_def del: sr_rep.simps)
qed

subsection \<open>Properties of every reachable state\<close>





text \<open>
  C16: a session is attached exactly when it has an owner; owners and previous owners are
  connected clients, so a baton is never offered to a closed socket; and no two sessions share
  a PTY, nor does a session's PTY have the number of a client.
\<close>

theorem ownership_consistent:
  assumes "sv_reach st" and "get_session st sid = Some s"
  shows "(s_state s = Attached \<longleftrightarrow> s_owner_fd s \<noteq> None) \<and>
         (\<forall>fd. s_owner_fd s = Some fd \<or> s_previous_owner_fd s = Some fd \<longrightarrow> get_client st fd \<noteq> None) \<and>
         get_client st (s_master_fd s) = None \<and>
         (\<forall>sid' s'. get_session st sid' = Some s' \<and> s_master_fd s' = s_master_fd s \<longrightarrow> sid' = sid)"
proof -
  from reach_inv [OF assms(1)] have core: "sv_core st" by (simp add: sv_inv_def)
  then have "distinct (fd_list st)" by (simp add: sv_core_def sv_wf_def)
  from sv_wf_masters(1,2) [OF this assms(2)] sv_coreD(2) [OF core assms(2)] show ?thesis
    by (auto simp: session_ok_def)
qed

theorem ownership_consistent_witness:
  "\<exists>s. get_session demo_attached 7 = Some s \<and> s_owner_fd s = Some 10 \<and> get_client demo_attached 10 \<noteq> None"
proof -
  obtain s where s: "get_session demo_attached 7 = Some s" "s_owner_fd s = Some 10"
    using demo_attached_eq by blast
  with ownership_consistent [OF demo_reach(4) s(1)] show ?thesis by auto
qed

subsection \<open>Requests are answered\<close>

definition responses :: "fd \<Rightarrow> sys_call list \<Rightarrow> response list" where
  "responses fd cs =
     concat (map (\<lambda>c. case c of Sock_write fd' r \<Rightarrow> if fd' = fd then [r] else [] | _ \<Rightarrow> []) cs)"

lemma responses_simps [simp]:
  "responses fd [] = []" "responses fd (cs @ ds) = responses fd cs @ responses fd ds"
  by (simp_all add: responses_def)

text \<open>Handlers make calls, none of which is a response.\<close>

definition silent :: "server \<Rightarrow> server \<Rightarrow> bool" where
  "silent st st' \<longleftrightarrow> (\<exists>cs. sv_trace st' = sv_trace st @ cs \<and> (\<forall>fd r. Sock_write fd r \<notin> set cs))"

lemma silent_refl [simp]: "silent st st"
  by (simp add: silent_def)

lemma silent_trans: "silent st st' \<Longrightarrow> silent st' st'' \<Longrightarrow> silent st st''"
  by (auto simp: silent_def)

lemma silent_emit: "silent st st' \<Longrightarrow> (\<And>fd r. Sock_write fd r \<notin> set cs) \<Longrightarrow> silent st (emit cs st')"
  by (auto simp: silent_def emit_def)

lemma silent_same: "silent st st' \<Longrightarrow> sv_trace st'' = sv_trace st' \<Longrightarrow> silent st st''"
  by (simp add: silent_def)

lemma silent_responses:
  assumes "silent st st'"
  shows "responses fd (sv_trace st') = responses fd (sv_trace st)"
proof -
  from assms obtain cs where "sv_trace st' = sv_trace st @ cs" and cs: "\<And>fd r. Sock_write fd r \<notin> set cs"
    by (auto simp: silent_def)
  moreover have "responses fd cs = []"
    using cs by (auto simp: responses_def split: sys_call.splits)
  ultimately show ?thesis by simp
qed

lemma session_calls_silent [simp]:
  "Sock_write fd r \<notin> set (session_drop alive s)" "Sock_write fd r \<notin> set (snd (session_cleanup alive s))"
  by (auto simp: session_drop_def session_cleanup_def)

lemma handle_request_silent:
  assumes "handle_request e fd req st = Inr (resp, st')"
  shows "silent st st'"
proof (cases req)
  case (Req_Create shell cols rows dir tid envs)
  have new: "Sock_write f r \<notin> set (snd (session_new now k os m pid name ws t))" for f r now k os m pid name ws t
    using session_new_calls [of now k os m pid name ws t] by auto
  then have "Sock_write f r \<notin> set cs" if "session_new now k os m pid name ws t = (x, cs)"
    for f r now k os m pid name ws t x cs
    using that by (metis snd_conv)
  then show ?thesis
    using assms Req_Create
    by (auto simp: handle_request_def handle_create_def Let_def silent_def emit_def sm_add_def
        split: option.splits prod.splits sum.splits)
next
  case (Req_Attach sid)
  with assms show ?thesis
    by (auto simp: handle_request_def handle_attach_def Let_def silent_def emit_def put_session_def
        split: option.splits if_splits)
next
  case (Req_Detach sid cols rows d)
  with assms show ?thesis
    by (auto simp: handle_request_def handle_detach_def Let_def silent_def emit_def put_session_def
        split: option.splits if_splits)
next
  case (Req_Kill sid)
  have "sv_trace (notify_ended sid st) = sv_trace st" for st
    by (simp add: notify_ended_def split: prod.splits)
  with Req_Kill assms show ?thesis
    by (auto simp: handle_request_def handle_kill_def Let_def sm_remove_def silent_def emit_def split_beta
        split: option.splits)
next
  case (Req_WinsizeUpdate sid cols rows)
  with assms show ?thesis
    by (auto simp: handle_request_def handle_winsize_update_def Let_def silent_def emit_def put_session_def
        split: option.splits if_splits)
next
  case (Req_Input sid d)
  with assms show ?thesis
    by (auto simp: handle_request_def handle_remote_input_def handle_ws_input_def silent_def emit_def
        split: option.splits)
qed (use assms in \<open>auto simp: handle_request_def silent_def\<close>)

lemma finish_attach_silent: "silent st (finish_attach e fd resp st)"
proof -
  have "silent st (snd (send_attach_data e fd sid st))" for sid
    by (auto simp: send_attach_data_def take_pending_def silent_def emit_def split: option.splits)
  moreover have "silent st (revert_attach sid st)" for sid st
    by (auto simp: revert_attach_def close_pending_def take_pending_def Let_def silent_def emit_def
        put_session_def split: option.splits)
  ultimately show ?thesis
    by (auto simp: finish_attach_def split: response.splits prod.splits) (metis silent_trans snd_conv)+
qed

text \<open>Creating the ring of a new session succeeds; when it fails the daemon panics.\<close>

definition shm_works :: "env \<Rightarrow> bool" where
  "shm_works e \<longleftrightarrow>
     (\<forall>sid. \<exists>r. fst (shm_create (e_shm e) (shm_name_for_session sid) rb_default_ring_size) = Inr r)"

lemma handle_request_total:
  assumes "shm_works e"
  shows "\<exists>resp st'. handle_request e fd req st = Inr (resp, st')"
proof -
  have "\<exists>s cs. session_new now k (e_shm e) m pid name ws t = (Inr s, cs)" for now k m pid name ws t
  proof -
    from assms obtain r where "fst (shm_create (e_shm e) (shm_name_for_session k) rb_default_ring_size) = Inr r"
      unfolding shm_works_def by blast
    then show ?thesis by (cases r) (auto simp: session_new_def Let_def split: prod.splits)
  qed
  then have "session_new now k (e_shm e) m pid name ws t \<noteq> (Inl f, cs)" for now k m pid name ws t f cs
    by (metis prod.inject sum.distinct(1))
  then have "\<exists>resp st'. handle_create e shell cols rows dir tid envs st = Inr (resp, st')" for shell cols rows dir tid envs
    by (auto simp: handle_create_def Let_def sm_add_def split: option.splits prod.splits sum.splits)
  then show ?thesis
    by (cases req) (auto simp: handle_request_def handle_attach_def handle_detach_def handle_kill_def
        handle_winsize_update_def handle_remote_input_def Let_def split_beta split: option.splits)
qed

lemma client_loop_answers:
  assumes "sv_inv st" "\<And>i. env_ok (E i) \<and> shm_works (E i) \<and> e_dec_request (E i) = dec"
    and "get_client st fd = Some c" "length (c_read_buf c) < n"
  shows "\<exists>st' resps. client_loop n E fd st = Inr st' \<and>
     responses fd (sv_trace st') = responses fd (sv_trace st) @ resps \<and>
     list_all2 (\<lambda>m r. \<forall>err. m = Inl err \<longrightarrow> r = Resp_Error (Parse_error err))
       (fst (drain_messages dec (c_read_buf c))) resps \<and>
     get_client st' fd = Some (c\<lparr>c_read_buf := snd (drain_messages dec (c_read_buf c))\<rparr>)"
  using assms
proof (induction n arbitrary: st c)
  case 0
  then show ?case by simp
next
  case (Suc n)
  let ?e = "E n"
  have e: "env_ok ?e" "shm_works ?e" "e_dec_request ?e = dec" using Suc.prems(2) by auto
  show ?case
  proof (cases "try_decode_message dec (c_read_buf c)")
    case None
    then have "drain_messages dec (c_read_buf c) = ([], c_read_buf c)"
      by (simp add: drain_messages.simps)
    with None Suc.prems(3) e show ?thesis by (simp add: list_all2_Nil)
  next
    case (Some p)
    then obtain result k where d: "try_decode_message dec (c_read_buf c) = Some (result, k)"
      by (cases p) auto
    note k = try_decode_consumed [OF d]
    let ?c = "c\<lparr>c_read_buf := drop k (c_read_buf c)\<rparr>"
    obtain xs rest where drain: "drain_messages dec (drop k (c_read_buf c)) = (xs, rest)" by fastforce
    have "\<exists>resp st1. answer ?e fd result st = Inr (resp, st1)"
      using handle_request_total [OF e(2)] by (auto simp: answer_def split: sum.splits)
    then obtain resp st1 where a: "answer ?e fd result st = Inr (resp, st1)" by blast
    have err: "\<forall>err. result = Inl err \<longrightarrow> resp = Resp_Error (Parse_error err)"
      using a by (auto simp: answer_def)
    have silent1: "silent st st1"
      using a handle_request_silent by (auto simp: answer_def split: sum.splits)
    from answer_core [OF Suc.prems(1) e(1) Suc.prems(3) a] Suc.prems(3)
    have st1: "sv_core st1" "pending_for resp st1" "get_client st1 fd = Some c"
      by (auto simp: get_client_def)
    have c_stream: "c_stream c = fd" using st1 by (simp add: sv_core_def sv_wf_def)
    from send_response_core [OF st1 conjunct2 [OF k]] obtain st2 where st2:
        "send_response fd resp k st1 = Inr st2" "sv_core st2" "pending_for resp st2"
        "get_client st2 fd = Some ?c" by blast
    have trace2: "sv_trace st2 = sv_trace st1 @ [Sock_write fd resp]"
      using st2(1) st1(3) by (auto simp: send_response_def put_client_def emit_def split: if_splits)
    let ?st3 = "finish_attach ?e fd resp st2"
    from finish_attach_core [OF st2(2,3,4)] have st3: "sv_inv ?st3" "get_client ?st3 fd = Some ?c"
      using st2(4) by (auto simp: get_client_def)
    have "length (c_read_buf ?c) < n" using Suc.prems(4) k by simp linarith
    from Suc.IH [OF st3(1) Suc.prems(2) st3(2) this] obtain st' resps where st':
        "client_loop n E fd ?st3 = Inr st'"
        "responses fd (sv_trace st') = responses fd (sv_trace ?st3) @ resps"
        "list_all2 (\<lambda>m r. \<forall>err. m = Inl err \<longrightarrow> r = Resp_Error (Parse_error err)) xs resps"
        "get_client st' fd = Some (?c\<lparr>c_read_buf := rest\<rparr>)"
      using drain by auto
    have "responses fd (sv_trace ?st3) = responses fd (sv_trace st) @ [resp]"
      using silent_responses [OF finish_attach_silent] silent_responses [OF silent1] trace2
      by (simp add: responses_def)
    moreover have "drain_messages dec (c_read_buf c) = (result # xs, rest)"
      using d drain by (simp add: drain_messages.simps [of dec "c_read_buf c"])
    ultimately show ?thesis
      using Suc.prems(3) d e(3) a st2(1) st' err by (auto intro!: exI [of _ "resp # resps"])
  qed
qed


lemma demo_shm_works: "shm_works demo_env"
proof -
  have "\<exists>r. fst (shm_create demo_shm (shm_name_for_session sid) n) = Inr r" for sid n
    using shm_name_c_string by (simp add: shm_create_def demo_shm_def Let_def)
  then show ?thesis by (simp add: shm_works_def demo_env_def)
qed


end
