(* ===== verification/Server_Baton.thy ===== *)
theory Server_Baton
  imports Server_Props
begin

section \<open>The baton pass\<close>

text \<open>The wait for the acknowledgement of a takeover, and the way of the baton to the daemon and back.\<close>

subsection \<open>Waiting for the acknowledgement\<close>

definition ack_snapshot :: "uuid \<Rightarrow> string + push_ack \<Rightarrow> string option" where
  "ack_snapshot sid result =
     (case result of
        Inr (DetachAck ack_sid snapshot) \<Rightarrow> if ack_sid = sid then snapshot else None
      | _ \<Rightarrow> None)"

lemma wait_ack_found:
  "try_decode_message dec (buf @ d) = Some (m, k) \<Longrightarrow>
   wait_ack_loop dec sid (Ack_data d # rs) buf = (ack_snapshot sid m, drop k (buf @ d))"
  by (auto simp: ack_snapshot_def split: sum.splits push_ack.splits)

text \<open>
  C26: what the wait for a client's acknowledgement returns depends on the bytes that arrive and
  not on how the reads cut them: it is the snapshot of the first complete message of the stream
  when that is a DetachAck for the session, and nothing otherwise. As long as no message is
  complete nothing is lost: all bytes stay in the client's buffer.
\<close>

theorem wait_ack_chunk_independent:
  assumes "try_decode_message dec buf = None"
  shows "fst (wait_ack_loop dec sid (map Ack_data ds) buf) =
           (case try_decode_message dec (buf @ concat ds) of
              None \<Rightarrow> None | Some (m, k) \<Rightarrow> ack_snapshot sid m) \<and>
         (try_decode_message dec (buf @ concat ds) = None \<longrightarrow>
            snd (wait_ack_loop dec sid (map Ack_data ds) buf) = buf @ concat ds)"
  using assms
proof (induction ds arbitrary: buf)
  case Nil
  then show ?case by simp
next
  case (Cons d ds)
  show ?case
  proof (cases "try_decode_message dec (buf @ d)")
    case None
    with Cons.IH [of "buf @ d"] show ?thesis by simp
  next
    case (Some p)
    then obtain m k where d: "try_decode_message dec (buf @ d) = Some (m, k)" by (cases p) auto
    from try_decode_extend [OF d, of "concat ds"]
    have "try_decode_message dec (buf @ concat (d # ds)) = Some (m, k)" by simp
    with wait_ack_found [OF d] show ?thesis by simp
  qed
qed

theorem wait_ack_chunk_independent_witness:
  "fst (wait_ack_loop (\<lambda>b. Inr (DetachAck 7 (Some ''grid''))) 7 (map Ack_data [[0, 0], [0], [1, 65]]) []) =
     Some ''grid''"
proof -
  let ?dec = "\<lambda>b::bytes. Inr (DetachAck 7 (Some ''grid'')) :: string + push_ack"
  have "try_decode_message ?dec [] = None"
    "try_decode_message ?dec ([] @ concat [[0, 0], [0], [1, 65]]) = Some (?dec [65], 5)"
    by (simp_all add: try_decode_message_def be_nat_def)
  with wait_ack_chunk_independent [of ?dec "[]" 7 "[[0, 0], [0], [1, 65]]"] show ?thesis
    by (simp add: ack_snapshot_def)
qed

subsection \<open>Takeover and release\<close>

lemma takeover_result:
  assumes s: "get_session st sid = Some s" and a: "s_state s = Attached" and o: "s_owner_fd s = Some fd"
  shows "\<exists>d. handle_baton_takeover e sid st = (Detached sid, snd (handle_baton_takeover e sid st)) \<and>
     get_session (snd (handle_baton_takeover e sid st)) sid = Some (baton_detach d s)"
proof -
  have force: "\<exists>d'. force_complete_takeover sid d st' = (Detached sid, snd (force_complete_takeover sid d st')) \<and>
      get_session (snd (force_complete_takeover sid d st')) sid = Some (baton_detach d' s)"
    if "get_session st' sid = Some s" for st' d
    using that by (auto simp: force_complete_takeover_def server_simps)
  have wait: "get_session (snd (wait_for_detach_ack e fd sid st')) sid = get_session st' sid" for st'
    by (simp add: wait_for_detach_ack_def server_simps split: option.splits prod.splits)
  show ?thesis
    using s a o force wait
    by (auto simp: handle_baton_takeover_def Let_def server_simps split_beta split: option.splits)
qed

lemma fd_list_detach [simp]:
  "open_fds (snd (force_complete_takeover sid d st)) = open_fds st"
  "open_fds (snd (wait_for_detach_ack e fd sid st)) = open_fds st"
  by (simp_all add: force_complete_takeover_def wait_for_detach_ack_def server_simps
      split: option.splits prod.splits)

lemma takeover_open_fds:
  assumes "get_session st sid = Some s" "s_state s = Attached" "s_owner_fd s = Some fd"
  shows "open_fds (snd (handle_baton_takeover e sid st)) = open_fds st"
  using assms
  by (auto simp: handle_baton_takeover_def Let_def split_beta open_fds_simps split: option.splits)

lemma takeover_get_client:
  assumes "get_session st sid = Some s" "s_state s = Attached" "s_owner_fd s = Some fd"
    and "get_client st k = Some c"
  shows "\<exists>c'. get_client (snd (handle_baton_takeover e sid st)) k = Some c' \<and> c_stream c' = c_stream c"
proof -
  have "\<exists>c'. get_client (snd (wait_for_detach_ack e fd sid st')) k = Some c' \<and> c_stream c' = c_stream c"
    if "get_client st' k = Some c" for st'
    using that by (auto simp: wait_for_detach_ack_def server_simps split: option.splits prod.splits)
  then show ?thesis
    using assms
    by (auto simp: handle_baton_takeover_def Let_def split_beta server_simps force_complete_takeover_def
        split: option.splits)
qed

text \<open>
  C15: the baton pass is a round trip. In every reachable state a takeover of an attached
  session succeeds, whatever the local client answers or fails to answer: the daemon becomes the
  PTY's reader and remembers the client. A release that can reach the client then attaches the
  session to that same client again, and the daemon stops reading; no descriptor is left open.
\<close>

theorem baton_round_trip:
  assumes "sv_reach st" and s: "get_session st sid = Some s"
    and a: "s_state s = Attached" and o: "s_owner_fd s = Some fd"
    and r1: "handle_baton_takeover e1 sid st = (resp1, st1)"
    and e2: "env_ok e2" "0 \<le> e_dup e2 (open_fds st1) (s_master_fd s)" "e_write_ok e2 fd" "e_send_fd_ok e2 fd"
    and r2: "handle_baton_release e2 sid st1 = (resp2, st2)"
  shows "resp1 = Detached sid \<and> resp2 = Detached sid \<and>
     (\<exists>s1. get_session st1 sid = Some s1 \<and> s_state s1 = Active \<and> s_previous_owner_fd s1 = Some fd \<and>
        s_master_fd s \<in> watch_set st1) \<and>
     (\<exists>s2. get_session st2 sid = Some s2 \<and> s_state s2 = Attached \<and> s_owner_fd s2 = Some fd \<and>
        s_previous_owner_fd s2 = None \<and> s_baton_release_at s2 = Some (e_now e2) \<and>
        s_master_fd s \<notin> watch_set st2) \<and>
     sv_inv st1 \<and> sv_inv st2 \<and> open_fds st2 = open_fds st"
proof -
  have inv: "sv_inv st" using assms(1) by (rule reach_inv)
  then have core: "sv_core st" and p: "sv_pending_dup_fds st = []" by (simp_all add: sv_inv_def)
  have st1: "st1 = snd (handle_baton_takeover e1 sid st)" using r1 by simp
  from takeover_result [OF s a o, of e1] r1 obtain d where resp1: "resp1 = Detached sid"
    and s1: "get_session st1 sid = Some (baton_detach d s)" by auto
  have core1: "sv_core st1" and p1: "sv_pending_dup_fds st1 = []"
    using takeover_core [OF core] p by (simp_all add: st1 server_simps)
  have prev: "s_previous_owner_fd (baton_detach d s) = Some fd" using o by simp
  from sv_coreD(2) [OF core s] o obtain c where c: "get_client st fd = Some c"
    by (auto simp: session_ok_def)
  then have "c_stream c = fd" using core by (simp add: sv_core_def sv_wf_def)
  with takeover_get_client [OF s a o c, of e1] obtain c1 where
      c1: "get_client st1 fd = Some c1" "c_stream c1 = fd" by (auto simp: st1)
  have core2: "sv_core st2" using release_core [OF core1 e2(1)] r2 by (metis snd_conv)
  have p2: "sv_pending_dup_fds st2 = []" using r2 p1 baton_pending(2) [of e2 sid st1] by simp
  from r2 s1 prev c1 e2 have resp2: "resp2 = Detached sid"
    and s2: "\<exists>s2. get_session st2 sid = Some s2 \<and> s_state s2 = Attached \<and> s_owner_fd s2 = Some fd \<and>
        s_previous_owner_fd s2 = None \<and> s_baton_release_at s2 = Some (e_now e2) \<and> s_master_fd s2 = s_master_fd s"
    and op2: "open_fds st2 = open_fds st1"
    by (auto simp: handle_baton_release_def Let_def server_simps session_attach_def)
  from s2 obtain t where t: "get_session st2 sid = Some t" "s_state t = Attached" "s_owner_fd t = Some fd"
    "s_previous_owner_fd t = None" "s_baton_release_at t = Some (e_now e2)" "s_master_fd t = s_master_fd s" by blast
  have "s_master_fd s \<in> watch_set st1" using sv_coreD(6) [OF core1 s1] by simp
  moreover have "s_master_fd s \<notin> watch_set st2" using sv_coreD(6) [OF core2 t(1)] t(2,6) by simp
  ultimately show ?thesis
    using resp1 resp2 s1 prev t core1 core2 p1 p2 op2 takeover_open_fds [OF s a o, of e1]
    by (simp add: sv_inv_def st1)
qed

theorem baton_round_trip_witness:
  "\<exists>s st1 st2 t. get_session demo_attached 7 = Some s \<and>
     handle_baton_takeover demo_env 7 demo_attached = (Detached 7, st1) \<and>
     handle_baton_release demo_env 7 st1 = (Detached 7, st2) \<and>
     get_session st2 7 = Some t \<and> s_state t = Attached \<and> s_owner_fd t = Some 10"
proof -
  obtain s where s: "get_session demo_attached 7 = Some s" "s_state s = Attached" "s_owner_fd s = Some 10"
    "s_master_fd s = 11" and op: "open_fds demo_attached = {5, 6, 8, 10, 11}"
    using demo_attached_eq by blast
  obtain resp1 st1 resp2 st2 where r: "handle_baton_takeover demo_env 7 demo_attached = (resp1, st1)"
    "handle_baton_release demo_env 7 st1 = (resp2, st2)" by fastforce
  have "open_fds st1 = open_fds demo_attached"
    using takeover_open_fds [OF s(1,2,3), of demo_env] r by simp
  then have "0 \<le> e_dup demo_env (open_fds st1) (s_master_fd s)" using op by (simp add: demo_env_def)
  moreover have "e_write_ok demo_env 10" "e_send_fd_ok demo_env 10" by (simp_all add: demo_env_def)
  ultimately show ?thesis
    using baton_round_trip [OF demo_reach(4) s(1-3) r(1) demo_env_ok(2) _ _ _ r(2)] r s(1) by auto
qed

end
