(* ===== verification/Server_Effects.thy ===== *)
theory Server_Effects
  imports Server_Baton
begin

section \<open>Output, remote viewers, crashes and input\<close>

text \<open>
  What single events do to a session: output of its shell, remote viewers that attach and
  detach, a local client that dies, and input that is written to the PTY.
\<close>

subsection \<open>Output of the shell\<close>

text \<open>What the handler does with the bytes of one read.\<close>

lemma session_output_effect:
  assumes core: "sv_core st" and s: "get_session st sid = Some s" and a: "s_state s \<noteq> Attached"
    and ring: "ring_holds s h" and bound: "length h + length data < 2 ^ 64"
  shows "\<exists>st' s'. handle_session_output e (Pty_data data) (s_master_fd s) st = Inr st' \<and>
     get_session st' sid = Some s' \<and> ring_holds s' (h @ data) \<and>
     (parser_fed s f \<longrightarrow> parser_fed s' (f @ data)) \<and> s_state s' = Active \<and>
     sv_ws_sent st' = sv_ws_sent st @
       map (\<lambda>sub. (sub_tx sub, Pty_output data)) (subs_of (sv_ws_shared st) sid) \<and>
     (\<forall>k. k \<noteq> sid \<longrightarrow> get_session st' k = get_session st k) \<and>
     sv_clients st' = sv_clients st \<and> sv_trace st' = sv_trace st"
proof -
  have "find_by_master_fd (sv_sessions st) (s_master_fd s) \<noteq> None"
  proof
    assume "find_by_master_fd (sv_sessions st) (s_master_fd s) = None"
    then have "\<not> (\<exists>x. x \<in> set (map snd (sv_sessions st)) \<and> s_master_fd x = s_master_fd s)"
      by (simp only: find_by_master_fd_def find_None_iff) simp
    then show False using get_sessionD [OF s] by force
  qed
  then obtain t where t: "find_by_master_fd (sv_sessions st) (s_master_fd s) = Some t" by blast
  have dist: "distinct (fd_list st)" using core by (simp add: sv_core_def sv_wf_def)
  from find_by_get(1) [OF core t] sv_wf_masters(2) [OF dist s] have "s_id t = sid"
    by blast
  obtain mem' where w: "shm_write (s_shared_ring s) (s_ring_mem s) data = Inr mem'"
    and rep: "sr_rep (s_shared_ring s, mem') (h @ data)"
    using shm_write_rep [OF ring [unfolded ring_holds_def] bound] by blast
  have bc: "ws_broadcast sid data w = map (\<lambda>sub. (sub_tx sub, Pty_output data)) (subs_of w sid)" for w
    by (simp add: ws_broadcast_def subs_of_def split: option.splits)
  define s1 where "s1 = s\<lparr>s_ring_mem := mem',
    s_terminal_state := map_option (ts_feed data) (s_terminal_state s), s_last_active := e_now e\<rparr>"
  define s' where "s' = (if s_state s1 = Idle then promote_to_active (e_now e) s1 else s1)"
  define st' where "st' = put_session sid s' (st\<lparr>sv_ws_sent := sv_ws_sent st @ ws_broadcast sid data (sv_ws_shared st)\<rparr>)"
  have "handle_session_output e (Pty_data data) (s_master_fd s) st = Inr st'"
    using t s a w \<open>s_id t = sid\<close>
    by (simp add: handle_session_output_def Let_def s1_def s'_def st'_def)
  moreover have "get_session st' k = (if k = sid then Some s' else get_session st k)" for k
    by (simp add: st'_def get_session_simps) (simp add: get_session_def)
  moreover have "sr_rep (s_shared_ring s', s_ring_mem s') (h @ data)"
    using rep by (simp add: s'_def s1_def promote_to_active_def del: sr_rep.simps)
  then have "ring_holds s' (h @ data)" by (simp only: ring_holds_def)
  moreover have "parser_fed s f \<longrightarrow> parser_fed s' (f @ data)"
    by (auto simp: parser_fed_def s'_def s1_def promote_to_active_def split: option.splits)
  moreover have "s_state s' = Active"
    using a by (cases "s_state s") (simp_all add: s'_def s1_def promote_to_active_def)
  moreover have "sv_ws_sent st' = sv_ws_sent st @
       map (\<lambda>sub. (sub_tx sub, Pty_output data)) (subs_of (sv_ws_shared st) sid)"
      "sv_clients st' = sv_clients st" "sv_trace st' = sv_trace st"
    by (simp_all add: st'_def put_session_def bc)
  ultimately show ?thesis by auto
qed


subsection \<open>Remote viewers\<close>

lemma takeover_kept:
  assumes "get_session st sid = Some s" "s_state s = Attached" "s_owner_fd s = Some fd"
  shows "sv_ws_shared (snd (handle_baton_takeover e sid st)) = sv_ws_shared st"
  using assms
  by (simp add: handle_baton_takeover_def Let_def split_beta force_complete_takeover_def
      wait_for_detach_ack_def emit_def put_session_def put_client_def split: option.splits)

lemma baton_detach_kept [simp]:
  "s_shared_ring (baton_detach d s) = s_shared_ring s" "s_ring_mem (baton_detach d s) = s_ring_mem s"
  "s_ws_client_count (baton_detach d s) = s_ws_client_count s"
  "s_child_pid (baton_detach d s) = s_child_pid s" "s_winsize (baton_detach d s) = s_winsize s"
  "s_shm_name (baton_detach d s) = s_shm_name s"
  by (simp_all add: baton_detach_def session_detach_def Let_def)

lemma refresh_snapshot_kept [simp]:
  "s_shared_ring (refresh_snapshot e s) = s_shared_ring s" "s_ring_mem (refresh_snapshot e s) = s_ring_mem s"
  "s_ws_client_count (refresh_snapshot e s) = s_ws_client_count s"
  "s_child_pid (refresh_snapshot e s) = s_child_pid s" "s_winsize (refresh_snapshot e s) = s_winsize s"
  "s_shm_name (refresh_snapshot e s) = s_shm_name s"
  by (simp_all add: refresh_snapshot_def)


text \<open>The demonstration session after its first output.\<close>

lemma demo_history:
  "\<exists>st s. sv_reach st \<and> get_session st 7 = Some s \<and> ring_holds s [104, 105] \<and> s_state s = Active"
proof -
  obtain s where s: "get_session demo_created 7 = Some s" "s_state s = Active" "ring_holds s []"
    using demo_created_eq by blast
  obtain m where m: "sr_rep (s_shared_ring s, m) [104, 105]"
    using shm_write_rep [OF s(3) [unfolded ring_holds_def], of "[104, 105]"] by auto
  let ?s = "s\<lparr>s_ring_mem := m\<rparr>"
  have "sv_reach (put_session 7 ?s demo_created)"
    by (rule sv_reach.ring_write [OF demo_reach(3) s(1)])
  moreover have "ring_holds ?s [104, 105]" using m by (simp add: ring_holds_def del: sr_rep.simps)
  moreover have "get_session (put_session 7 ?s demo_created) 7 = Some ?s" by (simp add: get_session_simps)
  ultimately show ?thesis using s(2) by (intro exI [of _ "put_session 7 ?s demo_created"] exI [of _ ?s]) simp
qed



text \<open>
  C25: the cooldown after a release. A remote detach that comes less than two seconds after the
  session went back to the local client leaves it there and only counts the remote client out;
  one that comes later takes the session over again.
\<close>

theorem release_cooldown:
  assumes s: "get_session st sid = Some s" and a: "s_state s = Attached"
    and o: "s_owner_fd s = Some fd" and t: "s_baton_release_at s = Some released"
  shows "(e_now e < released + baton_cooldown \<longrightarrow>
            handle_ws_detach e cid sid st = (Detached sid, put_session sid (dec_ws_count s) st)) \<and>
         (released + baton_cooldown \<le> e_now e \<longrightarrow>
            (\<exists>st' s'. handle_ws_detach e cid sid st = (Detached sid, st') \<and>
               get_session st' sid = Some s' \<and> s_state s' = Active \<and> s_previous_owner_fd s' = Some fd))"
proof -
  have "s_baton_release_at (dec_ws_count s) = Some released"
    using t by (simp add: dec_ws_count_def)
  then have cool: "in_cooldown e (dec_ws_count s) \<longleftrightarrow> e_now e < released + baton_cooldown"
    by (auto simp: in_cooldown_def baton_cooldown_def)
  let ?st = "put_session sid (dec_ws_count s) st"
  have g: "get_session ?st sid = Some (dec_ws_count s)" by (simp add: get_session_simps)
  from takeover_result [OF g, of fd e] a o obtain d where
      "handle_baton_takeover e sid ?st = (Detached sid, snd (handle_baton_takeover e sid ?st))"
      "get_session (snd (handle_baton_takeover e sid ?st)) sid = Some (baton_detach d (dec_ws_count s))"
    by auto
  then have "\<exists>st' s'. handle_baton_takeover e sid ?st = (Detached sid, st') \<and>
      get_session st' sid = Some s' \<and> s_state s' = Active \<and> s_previous_owner_fd s' = Some fd"
    using o by (intro exI conjI) (assumption | simp)+
  with s a g cool show ?thesis
    by (simp add: handle_ws_detach_def Let_def linorder_not_less)
qed

theorem release_cooldown_witness:
  "\<exists>st s. handle_ws_detach (demo_env\<lparr>e_now := 10\<rparr>) 1 7 st = (Detached 7, put_session 7 (dec_ws_count s) st) \<and>
     s_owner_fd s = Some 10"
proof -
  obtain s where s: "get_session demo_attached 7 = Some s" "s_state s = Attached" "s_owner_fd s = Some 10"
    using demo_attached_eq by blast
  let ?s = "s\<lparr>s_baton_release_at := Some 5\<rparr>"
  let ?st = "put_session 7 ?s demo_attached"
  have "get_session ?st 7 = Some ?s" by (simp add: get_session_simps)
  from release_cooldown [OF this, of 10 5 "demo_env\<lparr>e_now := 10\<rparr>" 1] s
  have "handle_ws_detach (demo_env\<lparr>e_now := 10\<rparr>) 1 7 ?st = (Detached 7, put_session 7 (dec_ws_count ?s) ?st)"
    by (simp add: baton_cooldown_def)
  with s show ?thesis by (intro exI [of _ ?st] exI [of _ ?s]) simp
qed

subsection \<open>A local client that goes away\<close>

lemma crash_detach_result:
  assumes s: "get_session st sid = Some s" and ring: "ring_holds s h"
  shows "\<exists>st' s'. crash_detach (sid, s_master_fd s) st = Inr st' \<and> get_session st' sid = Some s' \<and>
     s_state s' = Active \<and> s_owner_fd s' = None \<and> s_master_fd s' = s_master_fd s \<and>
     s_child_pid s' = s_child_pid s \<and>
     (parser_fed s f \<longrightarrow> parser_fed s' (f @ last_n (sr_capacity (s_shared_ring s)) h)) \<and>
     (\<forall>k. k \<noteq> sid \<longrightarrow> get_session st' k = get_session st k)"
proof -
  have cp: "get_session (close_pending sid st) k = get_session st k" for k
    by (simp add: close_pending_def take_pending_def get_session_simps get_session_def emit_def split: option.splits)
  have "shm_dump (s_shared_ring s) (s_ring_mem s) = Inr (last_n (sr_capacity (s_shared_ring s)) h)"
    using ring unfolding ring_holds_def by (rule shm_dump_rep)
  with s show ?thesis
    by (auto simp: crash_detach_def Let_def cp get_session_simps parser_fed_def session_detach_def
        split: option.splits)
qed

definition after_crash :: "session \<Rightarrow> session \<Rightarrow> bool" where
  "after_crash s s' \<longleftrightarrow> s_state s' = Active \<and> s_owner_fd s' = None \<and> s_master_fd s' = s_master_fd s \<and>
     s_child_pid s' = s_child_pid s \<and>
     (\<forall>h f. ring_holds s h \<and> parser_fed s f \<longrightarrow>
        parser_fed s' (f @ last_n (sr_capacity (s_shared_ring s)) h))"

lemma crash_detach_run:
  assumes "distinct (map fst ps)"
    and "\<And>sid m. (sid, m) \<in> set ps \<Longrightarrow>
      \<exists>s h. get_session st sid = Some s \<and> s_master_fd s = m \<and> ring_holds s h"
  shows "\<exists>st'. run_res (\<lambda>st p. crash_detach p st) st ps = Inr st' \<and>
     (\<forall>sid. if sid \<in> fst ` set ps
        then \<exists>s s'. get_session st sid = Some s \<and> get_session st' sid = Some s' \<and> after_crash s s'
        else get_session st' sid = get_session st sid)"
  using assms
proof (induction ps arbitrary: st)
  case Nil
  then show ?case by simp
next
  case (Cons p ps)
  obtain sid m where p: "p = (sid, m)" by (cases p)
  with Cons.prems(2) [of sid m] obtain s h where
      s: "get_session st sid = Some s" "s_master_fd s = m" "ring_holds s h"
    by auto
  obtain st1 where st1: "crash_detach p st = Inr st1" using crash_detach_result [OF s(1,3)] p s(2) by auto
  have res: "\<exists>s'. get_session st1 sid = Some s' \<and> s_state s' = Active \<and> s_owner_fd s' = None \<and>
      s_master_fd s' = s_master_fd s \<and> s_child_pid s' = s_child_pid s \<and>
      (parser_fed s f \<longrightarrow> parser_fed s' (f @ last_n (sr_capacity (s_shared_ring s)) h')) \<and>
      (\<forall>k. k \<noteq> sid \<longrightarrow> get_session st1 k = get_session st k)" if "ring_holds s h'" for h' f
    using crash_detach_result [OF s(1) that, of f] p s(2) st1 by auto
  from res [OF s(3)] obtain s1 where s1: "get_session st1 sid = Some s1" and
      other: "\<And>k. k \<noteq> sid \<Longrightarrow> get_session st1 k = get_session st k" by blast
  have "after_crash s s1"
    using res [OF s(3)] res s1 unfolding after_crash_def by (metis option.inject)
  have "\<exists>s h. get_session st1 k = Some s \<and> s_master_fd s = n \<and> ring_holds s h" if "(k, n) \<in> set ps" for k n
  proof -
    have "k \<noteq> sid" using that Cons.prems(1) p by force
    with other Cons.prems(2) [of k n] that show ?thesis by simp
  qed
  with Cons.IH [of st1] Cons.prems(1) obtain st' where st':
      "run_res (\<lambda>st p. crash_detach p st) st1 ps = Inr st'"
      "\<And>k. if k \<in> fst ` set ps
        then \<exists>s s'. get_session st1 k = Some s \<and> get_session st' k = Some s' \<and> after_crash s s'
        else get_session st' k = get_session st1 k"
    by auto
  have "sid \<notin> fst ` set ps" using Cons.prems(1) p by auto
  then have "if k \<in> fst ` set (p # ps)
        then \<exists>s s'. get_session st k = Some s \<and> get_session st' k = Some s' \<and> after_crash s s'
        else get_session st' k = get_session st k" for k
  proof (cases "k = sid")
    case True
    with st'(2) [of k] \<open>sid \<notin> fst ` set ps\<close> s(1) s1 \<open>after_crash s s1\<close> p show ?thesis by simp
  next
    case False
    then have mem: "k \<in> fst ` set (p # ps) \<longleftrightarrow> k \<in> fst ` set ps" using p by auto
    show ?thesis using st'(2) [of k] unfolding mem other [OF False] .
  qed
  moreover have "run_res (\<lambda>st p. crash_detach p st) st (p # ps) = Inr st'" using st1 st'(1) by simp
  ultimately show ?case by blast
qed

lemma forget_kept [simp]:
  "s_shared_ring (forget_previous_owner fd s) = s_shared_ring s"
  "s_ring_mem (forget_previous_owner fd s) = s_ring_mem s"
  "s_terminal_state (forget_previous_owner fd s) = s_terminal_state s"
  "s_child_pid (forget_previous_owner fd s) = s_child_pid s"
  by (simp_all add: forget_previous_owner_def)


lemma demo_only: "get_session demo_attached k = Some t \<Longrightarrow> k = 7"
  using demo_attached_eq get_sessionD [of demo_attached k t] by force


subsection \<open>Input for the shell\<close>

lemma write_loop_prefix:
  "\<exists>rest. data = concat (pty_write_loop ns data) @ rest \<and> [] \<notin> set (pty_write_loop ns data) \<and>
     length (pty_write_loop ns data) \<le> length data"
proof (induction ns data rule: pty_write_loop.induct)
  case (1 data)
  then show ?case by simp
next
  case (2 n ns data)
  show ?case
  proof (cases "data = [] \<or> n \<le> 0")
    case True
    then show ?thesis by auto
  next
    case False
    let ?d = "drop (nat n) data"
    from 2 [OF False] obtain rest where "?d = concat (pty_write_loop ns ?d) @ rest"
        "[] \<notin> set (pty_write_loop ns ?d)" "length (pty_write_loop ns ?d) \<le> length ?d" by blast
    moreover have "data = take (nat n) data @ ?d" by simp
    moreover have "0 < nat n" "0 < length data" using False by auto
    then have "Suc (length ?d) \<le> length data" by (simp add: Suc_le_eq)
    ultimately show ?thesis using False by (intro exI [of _ rest]) (auto simp del: length_drop)
  qed
qed

lemma write_loop_whole:
  "length data \<le> length ns \<Longrightarrow> \<forall>n \<in> set ns. 0 < n \<Longrightarrow> concat (pty_write_loop ns data) = data"
proof (induction ns data rule: pty_write_loop.induct)
  case (1 data)
  then show ?case by simp
next
  case (2 n ns data)
  show ?case
  proof (cases "data = []")
    case True
    then show ?thesis by simp
  next
    case False
    moreover have "0 < n" using 2(3) by simp
    moreover from this have "0 < nat n" by simp
    then have "length (drop (nat n) data) \<le> length ns" using 2(2) by simp
    ultimately show ?thesis using 2 by simp
  qed
qed

text \<open>
  C40: remote input reaches the shell in order and within bounds. The chunks written to the PTY
  are a prefix of the decoded input, none is empty and there are at most as many as it has
  bytes, so the loop ends; they are the whole input when every write takes something. The answer
  is the same in every case, and nothing else of the server changes.
\<close>

theorem input_in_order:
  assumes "get_session st sid = Some s" and "e_b64_decode e text = Some data"
  shows "\<exists>chunks rest. handle_remote_input e sid text st =
       (InputAck sid, emit (map (Pty_write (s_master_fd s)) chunks) st) \<and>
     data = concat chunks @ rest \<and> [] \<notin> set chunks \<and> length chunks \<le> length data \<and>
     (length data \<le> length (e_pty_writes e) \<and> (\<forall>n \<in> set (e_pty_writes e). 0 < n) \<longrightarrow> rest = [])"
proof -
  let ?cs = "pty_write_loop (e_pty_writes e) data"
  obtain rest where r: "data = concat ?cs @ rest" "[] \<notin> set ?cs" "length ?cs \<le> length data"
    using write_loop_prefix by blast
  moreover have "rest = []" if "length data \<le> length (e_pty_writes e)" "\<forall>n \<in> set (e_pty_writes e). 0 < n"
    using r(1) write_loop_whole [OF that] by (metis append_self_conv)
  moreover have "handle_remote_input e sid text st = (InputAck sid, emit (map (Pty_write (s_master_fd s)) ?cs) st)"
    using assms by (simp add: handle_remote_input_def handle_ws_input_def)
  ultimately show ?thesis by blast
qed

theorem input_in_order_witness:
  "\<exists>chunks. snd (handle_remote_input (demo_env\<lparr>e_b64_decode := (\<lambda>s. Some [108, 115, 10]), e_pty_writes := [2, 1, 5]\<rparr>)
       7 ''bHMK'' demo_created) = emit (map (Pty_write 11) chunks) demo_created \<and> concat chunks = [108, 115, 10]"
proof -
  let ?e = "demo_env\<lparr>e_b64_decode := (\<lambda>s. Some [108, 115, 10]), e_pty_writes := [2, 1, 5]\<rparr>"
  obtain s where "get_session demo_created 7 = Some s" "s_master_fd s = 11" using demo_created_eq by blast
  with input_in_order [of demo_created 7 s ?e "''bHMK''" "[108, 115, 10]"] show ?thesis by auto
qed

end
