(* ===== verification/Server_Shutdown.thy ===== *)
theory Server_Shutdown
  imports Server_Effects
begin

section \<open>Shutdown\<close>

text \<open>\<open>cleanup\<close> runs at the end of \<open>run\<close> and once more when the server is dropped.\<close>

definition kill_calls :: "env \<Rightarrow> session \<Rightarrow> sys_call list" where
  "kill_calls e s = snd (session_cleanup (e_alive e) s) @ session_drop (e_alive e) (fst (session_cleanup (e_alive e) s))"

lemma kill_session_eq:
  "kill_session e sid st =
     (case get_session st sid of None \<Rightarrow> st | Some s \<Rightarrow> emit (kill_calls e s) (del_session sid st))"
  by (simp add: kill_session_def sm_remove_del kill_calls_def del_session_upd split_beta split: option.splits)

lemma kill_session_core: "sv_core st \<Longrightarrow> sv_core (kill_session e sid st)"
proof (cases "get_session st sid")
  case None
  then show "sv_core st \<Longrightarrow> ?thesis" by (simp add: kill_session_eq)
next
  case (Some s)
  assume core: "sv_core st"
  show ?thesis
    using Some sv_coreD(5) [OF core Some]
    by (simp add: kill_session_eq kill_calls_def session_kill_run sv_core_del [OF core Some])
qed

lemma kill_session_kept [server_simps]:
  "sv_pending_dup_fds (kill_session e sid st) = sv_pending_dup_fds st"
  "sv_clients (kill_session e sid st) = sv_clients st"
  "sv_listener_fd (kill_session e sid st) = sv_listener_fd st"
  "sv_ws_wakeup_pipe (kill_session e sid st) = sv_ws_wakeup_pipe st"
  "sv_ws_shared (kill_session e sid st) = sv_ws_shared st"
  "sv_socket_path (kill_session e sid st) = sv_socket_path st"
  "get_session (kill_session e sid st) k = (if k = sid then None else get_session st k)"
  by (auto simp: kill_session_eq server_simps split: option.splits)
    (simp_all add: emit_def del_session_def)

interpretation killing: keyed_table get_session put_session "kill_session e" for e
  by unfold_locales (auto simp: server_simps fun_eq_iff)

lemma kill_all:
  assumes "sv_core st"
  shows "sv_core (fold (kill_session e) ids st) \<and>
     sv_pending_dup_fds (fold (kill_session e) ids st) = sv_pending_dup_fds st \<and>
     sv_clients (fold (kill_session e) ids st) = sv_clients st \<and>
     sv_listener_fd (fold (kill_session e) ids st) = sv_listener_fd st \<and>
     sv_ws_wakeup_pipe (fold (kill_session e) ids st) = sv_ws_wakeup_pipe st \<and>
     sv_ws_shared (fold (kill_session e) ids st) = sv_ws_shared st"
  using assms
proof (induction ids arbitrary: st)
  case Nil
  then show ?case by simp
next
  case (Cons sid ids)
  from Cons.IH [OF kill_session_core [OF Cons.prems, of e sid]] show ?case
    by (simp add: server_simps)
qed

lemma kill_all_gone:
  "get_session (fold (kill_session e) ids st) k = (if k \<in> set ids then None else get_session st k)"
  using killing.look_fold_del [where f = "\<lambda>x. x"] by simp

text \<open>What a kill leaves in the trace, whatever follows.\<close>

lemma kill_session_trace: "\<exists>cs. sv_trace (kill_session e sid st) = sv_trace st @ cs"
  by (auto simp: kill_session_eq emit_def del_session_def split: option.splits)

lemma kill_all_trace:
  assumes "sid \<in> set ids" "get_session st sid = Some s"
  shows "set (kill_calls e s) \<subseteq> set (sv_trace (fold (kill_session e) ids st))"
proof -
  have later: "set (sv_trace st) \<subseteq> set (sv_trace (fold (kill_session e) ks st))" for ks st
  proof (induction ks arbitrary: st)
    case Nil
    then show ?case by simp
  next
    case (Cons k ks)
    have "set (sv_trace st) \<subseteq> set (sv_trace (kill_session e k st))"
      using kill_session_trace [of e k st] by auto
    with Cons.IH [of "kill_session e k st"] show ?case by auto
  qed
  show ?thesis
    using assms
  proof (induction ids arbitrary: st)
    case Nil
    then show ?case by simp
  next
    case (Cons k ks)
    show ?case
    proof (cases "k = sid")
      case True
      then have "sv_trace (kill_session e k st) = sv_trace st @ kill_calls e s"
        using Cons.prems(2) by (simp add: kill_session_eq emit_def del_session_def)
      with later [of "kill_session e k st" ks] show ?thesis by auto
    next
      case False
      with Cons.prems have "sid \<in> set ks" "get_session (kill_session e k st) sid = Some s"
        by (auto simp: server_simps)
      from Cons.IH [OF this] show ?thesis by simp
    qed
  qed
qed

lemma notify_subscribers:
  "subscribers (sv_ws_shared (notify_ended sid st)) = AList.delete sid (subscribers (sv_ws_shared st))"
  by (auto simp: notify_ended_def ws_notify_session_ended_def AList.delete_id map_of_eq_None_iff
      split: option.splits)

lemma notify_all_subscribers:
  "subscribers (sv_ws_shared (fold notify_ended ids st)) =
     filter (\<lambda>p. fst p \<notin> set ids) (subscribers (sv_ws_shared st))"
proof (induction ids arbitrary: st)
  case Nil
  then show ?case by simp
next
  case (Cons sid ids)
  then show ?case
    by (auto simp: notify_subscribers AList.delete_eq intro!: filter_cong)
qed

lemma notify_all_kept:
  "sv_core (fold notify_ended ids st) = sv_core st"
  "sv_sessions (fold notify_ended ids st) = sv_sessions st"
  "sv_clients (fold notify_ended ids st) = sv_clients st"
  "sv_pending_dup_fds (fold notify_ended ids st) = sv_pending_dup_fds st"
  "sv_listener_fd (fold notify_ended ids st) = sv_listener_fd st"
  "sv_ws_wakeup_pipe (fold notify_ended ids st) = sv_ws_wakeup_pipe st"
  "sv_trace (fold notify_ended ids st) = sv_trace st"
proof -
  have one: "sv_sessions (notify_ended sid st) = sv_sessions st" "sv_clients (notify_ended sid st) = sv_clients st"
    "sv_pending_dup_fds (notify_ended sid st) = sv_pending_dup_fds st"
    "sv_listener_fd (notify_ended sid st) = sv_listener_fd st"
    "sv_ws_wakeup_pipe (notify_ended sid st) = sv_ws_wakeup_pipe st"
    "sv_trace (notify_ended sid st) = sv_trace st" for sid st
    by (simp_all add: notify_ended_def split: prod.splits)
  show "sv_core (fold notify_ended ids st) = sv_core st"
    "sv_sessions (fold notify_ended ids st) = sv_sessions st"
    "sv_clients (fold notify_ended ids st) = sv_clients st"
    "sv_pending_dup_fds (fold notify_ended ids st) = sv_pending_dup_fds st"
    "sv_listener_fd (fold notify_ended ids st) = sv_listener_fd st"
    "sv_ws_wakeup_pipe (fold notify_ended ids st) = sv_ws_wakeup_pipe st"
    "sv_trace (fold notify_ended ids st) = sv_trace st"
    by (induction ids arbitrary: st) (simp_all add: one)
qed

lemma cleanup_releases:
  assumes inv: "sv_inv st" and st': "st' = server_cleanup e st"
  shows "sv_sessions st' = [] \<and> sv_pending_dup_fds st' = [] \<and> subscribers (sv_ws_shared st') = [] \<and>
     (\<forall>sid s. get_session st sid = Some s \<longrightarrow> set (kill_calls e s) \<subseteq> set (sv_trace st')) \<and>
     kern_run ({}, {}) (sv_trace st') =
       Some (insert (sv_listener_fd st) {fd. get_client st fd \<noteq> None},
             insert (sv_listener_fd st) {fd. get_client st fd \<noteq> None}) \<and>
     (\<forall>e'. server_cleanup e' st' = emit [File_remove (sv_socket_path st')] st')"
proof -
  from inv have core: "sv_core st" and p: "sv_pending_dup_fds st = []" by (simp_all add: sv_inv_def)
  define st1 where "st1 = fold notify_ended (map fst (subscribers (sv_ws_shared st))) st"
  define ids where "ids = map s_id (sm_list (sv_sessions st1))"
  define st2 where "st2 = fold (kill_session e) ids st1"
  have st1: "sv_core st1" "sv_sessions st1 = sv_sessions st" "sv_clients st1 = sv_clients st"
    "sv_pending_dup_fds st1 = []" "sv_listener_fd st1 = sv_listener_fd st"
    "sv_ws_wakeup_pipe st1 = sv_ws_wakeup_pipe st"
    unfolding st1_def using core p by (simp_all only: notify_all_kept)
  have subs: "subscribers (sv_ws_shared st1) = []"
    unfolding st1_def by (simp add: notify_all_subscribers filter_empty_conv)
  note kill = kill_all [OF st1(1), of e ids, folded st2_def]
  note killed = kill_all_gone [of e ids st1, folded st2_def]
  have ids: "sid \<in> set ids" if "get_session st sid = Some s" for sid s
    using get_sessionD [OF that] sv_coreD(1) [OF core that] st1(2)
    by (force simp: ids_def sm_list_def)
  have gone: "get_session st2 k = None" for k
  proof (cases "get_session st1 k")
    case None
    with killed show ?thesis by simp
  next
    case (Some s)
    then have "get_session st k = Some s" using st1(2) by (simp add: get_session_def)
    with ids killed show ?thesis by simp
  qed
  have empty: "sv_sessions st2 = []"
  proof (rule ccontr)
    assume "sv_sessions st2 \<noteq> []"
    then obtain k s xs where "sv_sessions st2 = (k, s) # xs" by (cases "sv_sessions st2") auto
    with gone [of k] show False by (simp add: get_session_def sm_get_def)
  qed
  let ?pipe = "case sv_ws_wakeup_pipe st of None \<Rightarrow> [] | Some (rfd, wfd) \<Rightarrow> [Fd_close rfd, Fd_close wfd]"
  define st3 where "st3 = emit ?pipe (st2\<lparr>sv_ws_wakeup_pipe := None\<rparr>)"
  have pipe2: "sv_ws_wakeup_pipe st2 = sv_ws_wakeup_pipe st" "sv_pending_dup_fds st2 = []"
    "sv_clients st2 = sv_clients st" "sv_listener_fd st2 = sv_listener_fd st"
    "sv_ws_shared st2 = sv_ws_shared st1"
    using kill st1 by auto
  have "server_cleanup e st = emit [File_remove (sv_socket_path st3)] st3"
    using pipe2
    by (simp add: server_cleanup_def Let_def flip: st1_def)
      (auto simp: st2_def [symmetric] ids_def [symmetric] st3_def emit_def split: option.splits)
  then have eq: "st' = emit [File_remove (sv_socket_path st3)] st3" using st' by simp
  have fields: "sv_sessions st' = []" "sv_pending_dup_fds st' = []" "subscribers (sv_ws_shared st') = []"
    "sv_ws_wakeup_pipe st' = None" "sv_trace st' = sv_trace st2 @ ?pipe @ [File_remove (sv_socket_path st')]"
    using empty pipe2 subs by (simp_all add: eq st3_def emit_def)
  have calls: "set (kill_calls e s) \<subseteq> set (sv_trace st')" if "get_session st sid = Some s" for sid s
  proof -
    have "get_session st1 sid = Some s" using that st1(2) by (simp add: get_session_def)
    from kill_all_trace [OF ids [OF that] this, of e] show ?thesis
      using fields(5) by (auto simp: st2_def)
  qed
  have "fd_list st2 = new_fds (sv_listener_fd st) (sv_ws_wakeup_pipe st) @ map fst (sv_clients st)"
    using pipe2 empty by (simp add: fd_list_def)
  moreover have "distinct (fd_list st2)" using kill by (simp add: sv_core_def sv_wf_def)
  moreover have "fst ` set (sv_clients st) = {fd. get_client st fd \<noteq> None}"
    by (simp add: get_client_def map_of_eq_None_iff)
  moreover have "get_client st2 = get_client st" using pipe2 by (simp add: get_client_def fun_eq_iff)
  moreover have "kern_run ({}, {}) (sv_trace st2) = Some (open_fds st2, watch_set st2)"
    using kill by (simp add: sv_core_def kernel_agrees_def)
  ultimately have "kern_run ({}, {}) (sv_trace st') =
       Some (insert (sv_listener_fd st) {fd. get_client st fd \<noteq> None},
             insert (sv_listener_fd st) {fd. get_client st fd \<noteq> None})"
    using pipe2 gone unfolding fields(5)
    by (auto simp: kern_run_append open_fds_def watch_set_def new_fds_def split: option.splits)
  moreover have "server_cleanup e' st' = emit [File_remove (sv_socket_path st')] st'" for e'
    using fields
    by (simp add: server_cleanup_def Let_def sm_list_def) (simp add: emit_def)
  ultimately show ?thesis using fields calls by blast
qed



end
