(* ===== verification/Ws_Evolves.thy ===== *)
theory Ws_Evolves
  imports Ws_Conn Server_Shutdown
begin

section \<open>What the main loop does to the subscriptions\<close>

text \<open>
  The main loop only ends subscriptions, and tells each subscriber it removes so. It sends only
  to subscribers, and its channel and client counters stay. Every handler and every step of the
  loop is shown to act this way; \<open>ws_part\<close> is all of the server state these facts are about.
\<close>

definition ws_part :: "server \<Rightarrow> ws_shared \<times> ws_sends \<times> (u64 \<times> response) list" where
  "ws_part st = (sv_ws_shared st, sv_ws_sent st, sv_ws_replies st)"

named_theorems ws_kept

lemma ws_part_update [ws_kept]:
  "ws_part (sv_trace_update f st) = ws_part st"
  "ws_part (sv_sessions_update g st) = ws_part st"
  "ws_part (sv_clients_update h st) = ws_part st"
  "ws_part (sv_pending_dup_fds_update k st) = ws_part st"
  "ws_part (sv_running_update r st) = ws_part st"
  "ws_part (sv_idle_since_update t st) = ws_part st"
  by (simp_all add: ws_part_def)

definition live_channels :: "ws_shared \<Rightarrow> nat set" where
  "live_channels w = {sub_tx sub | sub sid. sub \<in> set (subs_of w sid)}"

text \<open>The step leads from \<open>(w, sent, replies)\<close> to the second triple.\<close>

fun part_evolves ::
  "ws_shared \<times> ws_sends \<times> (u64 \<times> response) list \<Rightarrow>
   ws_shared \<times> ws_sends \<times> (u64 \<times> response) list \<Rightarrow> bool" where
  "part_evolves (w, sent, replies) (w', sent', replies') \<longleftrightarrow>
     next_client_id w' = next_client_id w \<and> next_channel w' = next_channel w \<and> replies' = replies \<and>
     (\<exists>new. sent' = sent @ new \<and> fst ` set new \<subseteq> live_channels w) \<and>
     (\<forall>cid sid. map_of (client_sessions w') cid = Some sid \<longrightarrow>
        map_of (client_sessions w) cid = Some sid) \<and>
     (\<forall>sid. set (subs_of w' sid) \<subseteq> set (subs_of w sid)) \<and>
     (\<forall>sid sub. sub \<in> set (subs_of w sid) \<longrightarrow>
        sub \<in> set (subs_of w' sid) \<or> (sub_tx sub, Session_ended) \<in> set sent')"

definition ws_evolves :: "server \<Rightarrow> server \<Rightarrow> bool" where
  "ws_evolves st st' \<longleftrightarrow> part_evolves (ws_part st) (ws_part st')"

lemma part_evolves_trans:
  assumes "part_evolves p q" "part_evolves q r"
  shows "part_evolves p r"
proof -
  obtain w1 s1 r1 w2 s2 r2 w3 s3 r3 where p: "p = (w1, s1, r1)" "q = (w2, s2, r2)" "r = (w3, s3, r3)"
    by (metis prod_cases3)
  from assms obtain n1 n2 where n: "s2 = s1 @ n1" "fst ` set n1 \<subseteq> live_channels w1"
      "s3 = s2 @ n2" "fst ` set n2 \<subseteq> live_channels w2"
    unfolding p part_evolves.simps by blast
  have "live_channels w2 \<subseteq> live_channels w1"
    using assms(1) unfolding p part_evolves.simps live_channels_def by blast
  with n have "s3 = s1 @ n1 @ n2" "fst ` set (n1 @ n2) \<subseteq> live_channels w1"
    by (auto simp: image_Un)
  moreover have "set s2 \<subseteq> set s3" using n by auto
  ultimately show ?thesis using assms unfolding p part_evolves.simps by (metis subset_iff)
qed

lemma ws_evolves_trans: "ws_evolves st st' \<Longrightarrow> ws_evolves st' st'' \<Longrightarrow> ws_evolves st st''"
  unfolding ws_evolves_def by (rule part_evolves_trans)

lemma ws_evolves_same: "ws_part st' = ws_part st \<Longrightarrow> ws_evolves st st'"
  by (cases "ws_part st") (simp add: ws_evolves_def)

lemma ws_evolves_refl [simp]: "ws_evolves st st"
  by (simp add: ws_evolves_same)

lemma ws_evolves_cong: "ws_evolves st st' \<Longrightarrow> ws_part st'' = ws_part st' \<Longrightarrow> ws_evolves st st''"
  by (simp add: ws_evolves_def)

lemma broadcast_evolves:
  "ws_evolves st (st\<lparr>sv_ws_sent := sv_ws_sent st @ ws_broadcast sid data (sv_ws_shared st)\<rparr>)"
  by (force simp: ws_evolves_def ws_part_def ws_broadcast_def live_channels_def subs_of_def
      split: option.splits)

lemma notify_evolves: "ws_evolves st (notify_ended sid st)"
proof (cases "map_of (subscribers (sv_ws_shared st)) sid")
  case None
  then show ?thesis
    by (intro ws_evolves_same) (simp add: notify_ended_def ws_notify_session_ended_def ws_part_def)
next
  case (Some subs)
  then have subs: "subs_of (sv_ws_shared st) sid = subs" by (simp add: subs_of_def)
  then have live: "sub_tx ` set subs \<subseteq> live_channels (sv_ws_shared st)"
    by (auto simp: live_channels_def)
  from Some have after: "notify_ended sid st = st\<lparr>sv_ws_shared := (sv_ws_shared st)
      \<lparr>subscribers := AList.delete sid (subscribers (sv_ws_shared st)),
       client_sessions := fold (\<lambda>s. AList.delete (sub_client_id s)) subs (client_sessions (sv_ws_shared st))\<rparr>,
      sv_ws_sent := sv_ws_sent st @ map (\<lambda>s. (sub_tx s, Session_ended)) subs\<rparr>" (is "_ = ?st'")
    by (simp add: notify_ended_def ws_notify_session_ended_def)
  have keep: "subs_of (sv_ws_shared ?st') sid' = (if sid' = sid then [] else subs_of (sv_ws_shared st) sid')" for sid'
    by (simp add: subs_of_def AList.delete_conv')
  show ?thesis
    unfolding after ws_evolves_def ws_part_def part_evolves.simps keep
    using live subs by (auto dest: alist.look_fold_del_Some)
qed

subsection \<open>The handlers\<close>

lemma small_ws_kept [ws_kept]:
  "ws_part (emit cs st) = ws_part st"
  "ws_part (put_session sid s st) = ws_part st"
  "ws_part (put_client fd c st) = ws_part st"
  by (simp_all add: emit_def put_session_def put_client_def ws_kept)

lemma detach_ws_kept [ws_kept]:
  "ws_part (snd (handle_detach sid cols rows d st)) = ws_part st"
  by (simp_all add: handle_detach_def Let_def ws_kept split: option.splits)

lemma takeover_ws_kept [ws_kept]:
  "ws_part (snd (handle_baton_takeover e sid st)) = ws_part st"
  "ws_part (snd (handle_baton_release e sid st)) = ws_part st"
  by (simp_all add: handle_baton_takeover_def handle_baton_release_def Let_def split_beta
      force_complete_takeover_def wait_for_detach_ack_def ws_kept split: option.splits)

lemma ws_detach_ws_kept [ws_kept]:
  "ws_part (snd (handle_ws_detach e cid sid st)) = ws_part st"
  by (simp_all add: handle_ws_detach_def Let_def ws_kept split: option.splits)

lemma ws_disconnect_ws_kept [ws_kept]:
  "ws_part (handle_ws_client_disconnect e cid st) = ws_part st"
  by (simp_all add: handle_ws_client_disconnect_def Let_def ws_kept split: option.splits)

lemma ws_attach_ws_kept:
  "handle_ws_attach e cid sid st = Inr (resp, st') \<Longrightarrow> ws_part st' = ws_part st"
  by (auto simp: handle_ws_attach_def Let_def bind_res_Inr_iff ws_kept split: option.splits if_splits)

lemma attach_ws_kept [ws_kept]:
  "ws_part (snd (handle_attach e fd sid st)) = ws_part st"
  by (simp_all add: handle_attach_def Let_def ws_kept split: option.splits)

lemma request_evolves:
  assumes "handle_request e fd req st = Inr (resp, st')"
  shows "ws_evolves st st'"
proof (cases req)
  case (Req_Create shell cols rows dir tid envs)
  with assms show ?thesis
    by (auto simp: handle_request_def handle_create_def Let_def sm_add_def ws_kept
        intro!: ws_evolves_same split: option.splits prod.splits sum.splits)
next
  case (Req_Attach sid)
  with assms have "st' = snd (handle_attach e fd sid st)" by (simp add: handle_request_def)
  then show ?thesis by (intro ws_evolves_same) (simp_all add: ws_kept)
next
  case (Req_Detach sid cols rows d)
  with assms have "st' = snd (handle_detach sid cols rows d st)" by (simp add: handle_request_def)
  then show ?thesis by (intro ws_evolves_same) (simp_all add: ws_kept)
next
  case (Req_Kill sid)
  with assms have st': "st' = snd (handle_kill e sid st)" by (simp add: handle_request_def)
  show ?thesis
  proof (cases "get_session st sid")
    case None
    with st' show ?thesis by (simp add: handle_kill_def sm_remove_del)
  next
    case (Some s)
    have "ws_part (notify_ended sid (emit cs (del_session sid st))) = ws_part (notify_ended sid st)" for cs
      by (simp add: notify_ended_def ws_part_def emit_def del_session_def split: prod.splits)
    with st' Some show ?thesis
      by (intro ws_evolves_cong [OF notify_evolves [of st sid]])
        (simp_all add: handle_kill_def sm_remove_del Let_def split_beta del_session_upd ws_kept)
  qed
next
  case (Req_WinsizeUpdate sid cols rows)
  with assms show ?thesis
    by (auto simp: handle_request_def handle_winsize_update_def Let_def ws_kept
        intro!: ws_evolves_same split: option.splits)
next
  case (Req_Input sid d)
  with assms show ?thesis
    by (auto simp: handle_request_def handle_remote_input_def handle_ws_input_def ws_kept
        intro!: ws_evolves_same split: option.splits)
qed (use assms in \<open>auto simp: handle_request_def ws_kept intro!: ws_evolves_same\<close>)

text \<open>A command is answered once, in the order of the queue.\<close>

lemma ws_request_evolves:
  assumes "ws_request e cid req st = Inr (resp, st')"
  shows "ws_evolves st st'"
proof (cases req)
  case (Req_Attach sid)
  with assms ws_attach_ws_kept [of e cid sid st resp st'] show ?thesis
    by (intro ws_evolves_same) (simp add: ws_request_def)
next
  case (Req_Detach sid cols rows d)
  with assms have "st' = snd (handle_ws_detach e cid sid st)" by (simp add: ws_request_def)
  then show ?thesis by (intro ws_evolves_same) (simp add: ws_kept)
qed (use assms in \<open>auto simp: ws_request_def intro: request_evolves\<close>)

lemma ws_command_evolves:
  assumes "handle_ws_command e cmd st = Inr st'"
  obtains "\<forall>cid req. cmd \<noteq> Wc_request cid req" "ws_evolves st st'"
  | cid req resp st1 where "cmd = Wc_request cid req" "ws_evolves st st1"
      "st' = st1\<lparr>sv_ws_replies := sv_ws_replies st1 @ [(cid, resp)]\<rparr>"
proof (cases cmd)
  case (Wc_request cid req)
  then obtain resp st1 where "ws_request e cid req st = Inr (resp, st1)"
    "st' = st1\<lparr>sv_ws_replies := sv_ws_replies st1 @ [(cid, resp)]\<rparr>"
    using assms by (auto simp: handle_ws_command_def bind_res_Inr_iff)
  with Wc_request that(2) ws_request_evolves show ?thesis by blast
next
  case (Wc_disconnected cid)
  with assms have "ws_evolves st st'"
    by (auto simp: handle_ws_command_def ws_kept intro!: ws_evolves_same)
  with Wc_disconnected that(1) show ?thesis by blast
next
  case (Wc_input sid d)
  with assms have "ws_evolves st st'"
    by (auto simp: handle_ws_command_def handle_ws_input_def ws_kept intro!: ws_evolves_same
        split: option.splits)
  with Wc_input that(1) show ?thesis by blast
qed

subsection \<open>The rest of the loop\<close>

lemma finish_attach_ws_kept [ws_kept]:
  "ws_part (finish_attach e fd resp st) = ws_part st"
  by (simp_all add: finish_attach_def send_attach_data_def take_pending_def revert_attach_def close_pending_def
      Let_def ws_kept split: response.splits option.splits)

lemma client_loop_evolves: "client_loop n E fd st = Inr st' \<Longrightarrow> ws_evolves st st'"
proof (induction n arbitrary: st)
  case 0
  then show ?case by simp
next
  case (Suc n)
  show ?case
  proof (cases "\<exists>c result k. get_client st fd = Some c \<and>
      try_decode_message (e_dec_request (E n)) (c_read_buf c) = Some (result, k)")
    case False
    with Suc.prems show ?thesis by (auto split: option.splits)
  next
    case True
    with Suc.prems obtain result k resp st1 st2 where a: "answer (E n) fd result st = Inr (resp, st1)"
      and s: "send_response fd resp k st1 = Inr st2"
      and rest: "client_loop n E fd (finish_attach (E n) fd resp st2) = Inr st'"
      by (auto simp: bind_res_Inr_iff)
    have "ws_evolves st st1"
      using a by (auto simp: answer_def split: sum.splits dest: request_evolves)
    also have "ws_evolves st1 (finish_attach (E n) fd resp st2)"
      using s by (intro ws_evolves_same)
        (auto simp: send_response_def ws_kept split: option.splits if_splits)
    finally (ws_evolves_trans) have "ws_evolves st (finish_attach (E n) fd resp st2)" .
    with Suc.IH [OF rest] ws_evolves_trans show ?thesis by blast
  qed
qed

lemma crash_detach_ws_kept:
  "run_res (\<lambda>st p. crash_detach p st) st ps = Inr st' \<Longrightarrow>
   ws_part st' = ws_part st"
proof (induction ps arbitrary: st)
  case Nil
  then show ?case by simp
next
  case (Cons p ps)
  then obtain st1 where st1: "crash_detach p st = Inr st1"
      "run_res (\<lambda>st p. crash_detach p st) st1 ps = Inr st'"
    by (auto simp: bind_res_Inr_iff)
  have "ws_part st1 = ws_part st"
    using st1(1)
    by (auto simp: crash_detach_def Let_def bind_res_Inr_iff close_pending_def take_pending_def
        ws_kept split: option.splits)
  with Cons.IH [OF st1(2)] show ?case by simp
qed

lemma disconnect_evolves: "handle_client_disconnect fd st = Inr st' \<Longrightarrow> ws_evolves st st'"
  by (auto simp: handle_client_disconnect_def Let_def ws_kept dest!: crash_detach_ws_kept
      intro!: ws_evolves_same)

lemma drop_ws_kept [ws_kept]:
  "ws_part (drop_session e sid st) = ws_part st"
  by (simp_all add: drop_session_def ws_kept split: option.splits prod.splits)

lemma child_exit_evolves: "ws_evolves st (handle_child_exit e pid st)"
proof -
  have emit: "ws_evolves st (emit cs st)" for cs st
    by (intro ws_evolves_same) (simp_all add: ws_kept)
  have "ws_evolves st (notify_ended sid (emit cs (emit ds st)))" for sid cs ds
    by (intro ws_evolves_trans [OF _ notify_evolves] ws_evolves_trans [OF emit emit])
  then have "ws_evolves st (drop_session e sid (notify_ended sid (emit cs (emit ds st))))" for sid cs ds
    by (rule ws_evolves_cong) (simp_all add: ws_kept)
  with emit show ?thesis
    by (simp add: handle_child_exit_def Let_def split: option.splits)
qed

lemma output_evolves: "handle_session_output e r fd st = Inr st' \<Longrightarrow> ws_evolves st st'"
  by (cases r) (auto simp: handle_session_output_def Let_def bind_res_Inr_iff ws_kept
      intro: ws_evolves_same ws_evolves_cong [OF broadcast_evolves] split: option.splits if_splits)

lemma accept_ws_kept:
  "ws_part (snd (accept_clients rs st)) = ws_part st"
proof (induction rs arbitrary: st)
  case Nil
  then show ?case by simp
next
  case (Cons r rs)
  then show ?case by (auto simp: add_client_def ws_kept split: accept_result.splits)
qed

lemma dispatch_evolves: "dispatch_event E ev st = Inr (ctl, st') \<Longrightarrow> ws_evolves st st'"
proof -
  assume d: "dispatch_event E ev st = Inr (ctl, st')"
  have data: "ws_evolves st st''" if "handle_client_data E r fd st = Inr (ok, st'')" for r fd ok st''
  proof (cases "get_client st fd")
    case None
    with that show ?thesis by (simp add: handle_client_data_def)
  next
    case (Some c)
    have "ws_evolves st (put_client fd c' st)" for c'
      by (intro ws_evolves_same) (simp_all add: ws_kept)
    with that Some show ?thesis
      by (auto simp: handle_client_data_def Let_def bind_res_Inr_iff simp del: client_loop.simps
          split: sock_read.splits intro: disconnect_evolves ws_evolves_trans client_loop_evolves)
  qed
  have "ws_evolves st (snd (accept_clients rs st))" for rs
    using accept_ws_kept [of rs st] by (intro ws_evolves_same) simp_all
  with d data show ?thesis
    by (auto simp: dispatch_event_def Let_def bind_res_Inr_iff ctl_of_def ws_kept split: if_splits
        intro: disconnect_evolves child_exit_evolves output_evolves ws_evolves_same)
qed

lemma reap_evolves: "ws_evolves st (reap_sessions e st)"
proof -
  have fold: "ws_evolves st (fold (\<lambda>(sid, fd) st. notify_ended sid (emit [Kq_delete fd] st)) dead st)" for dead st
  proof (induction dead arbitrary: st)
    case Nil
    then show ?case by simp
  next
    case (Cons p dead)
    obtain sid fd where p: "p = (sid, fd)" by (cases p)
    have "ws_evolves st (emit [Kq_delete fd] st)"
      by (intro ws_evolves_same) (simp_all add: ws_kept)
    then have "ws_evolves st (notify_ended sid (emit [Kq_delete fd] st))"
      by (rule ws_evolves_trans [OF _ notify_evolves])
    with Cons.IH p show ?case by (auto intro: ws_evolves_trans)
  qed
  have "ws_evolves st (emit calls (st\<lparr>sv_sessions := m\<rparr>))" for calls m
    by (intro ws_evolves_same) (simp_all add: ws_kept)
  then show ?thesis
    by (auto simp: reap_sessions_def split: prod.splits intro!: ws_evolves_trans [OF _ fold])
qed

end
