(* ===== verification/Ws_System.thy ===== *)
theory Ws_System
  imports Ws_Evolves
begin

section \<open>The daemon with its WebSocket clients\<close>

text \<open>
  The main loop and the connection tasks run concurrently. They share the subscriptions, under
  a lock, the queue of commands, and a channel per subscription and per request. A step of the
  system is one reaction of one connection, one command the main loop takes from the queue, or
  one of its other actions; each uses the subscriptions while it holds their lock. The steps
  may come in any order, so every interleaving of the tasks with the loop is covered.
\<close>

subsection \<open>State and steps\<close>

text \<open>
  \<open>sy_taken\<close> counts the events a connection has received on a channel, \<open>sy_answered\<close> the
  replies it has received. Connections that are closed stay in the list.
\<close>

record ws_system =
  sy_server :: server
  sy_conns :: "ws_conn list"
  sy_queue :: "ws_command list"
  sy_taken :: "nat \<Rightarrow> nat"
  sy_answered :: "u64 \<Rightarrow> nat"
  sy_out :: "(u64 \<times> ws_out) list"

definition sent_on :: "'k \<Rightarrow> ('k \<times> 'a) list \<Rightarrow> 'a list" where
  "sent_on k xs = map snd (filter (\<lambda>p. fst p = k) xs)"

definition sys_shared :: "ws_system \<Rightarrow> ws_shared" where
  "sys_shared sy = sv_ws_shared (sy_server sy)"

text \<open>A channel is open while some subscription holds its sender.\<close>

definition channel_open :: "ws_shared \<Rightarrow> nat \<Rightarrow> bool" where
  "channel_open w ch \<longleftrightarrow>
     (\<exists>sid \<in> set (map fst (subscribers w)). \<exists>sub \<in> set (subs_of w sid). sub_tx sub = ch)"

text \<open>
  \<open>rx.recv()\<close>: \<open>None\<close> when it has to wait, \<open>Some None\<close> when the channel is closed and
  empty, and the next event otherwise.
\<close>

definition recv_event :: "ws_system \<Rightarrow> nat \<Rightarrow> ws_event option option" where
  "recv_event sy ch =
     (let evs = sent_on ch (sv_ws_sent (sy_server sy)) in
      if sy_taken sy ch < length evs then Some (Some (evs ! sy_taken sy ch))
      else if channel_open (sys_shared sy) ch then None else Some None)"

definition is_request_of :: "u64 \<Rightarrow> ws_command \<Rightarrow> bool" where
  "is_request_of cid cmd = (case cmd of Wc_request cid' req \<Rightarrow> cid' = cid | _ \<Rightarrow> False)"

text \<open>
  The oneshot channel of the request a connection waits for: \<open>None\<close> when the request is still
  to be handled, \<open>Some None\<close> when its sender was dropped without an answer.
\<close>

definition recv_reply :: "ws_system \<Rightarrow> u64 \<Rightarrow> response option option" where
  "recv_reply sy cid =
     (let rs = sent_on cid (sv_ws_replies (sy_server sy)) in
      if sy_answered sy cid < length rs then Some (Some (rs ! sy_answered sy cid))
      else if list_ex (is_request_of cid) (sy_queue sy) then None else Some None)"

definition after_conn :: "nat \<Rightarrow> conn_result \<Rightarrow> ws_system \<Rightarrow> ws_system" where
  "after_conn i r sy =
     (case r of (c, w, cmds, outs) \<Rightarrow>
        sy\<lparr>sy_server := (sy_server sy)\<lparr>sv_ws_shared := w\<rparr>,
           sy_conns := (sy_conns sy)[i := c],
           sy_queue := sy_queue sy @ cmds,
           sy_out := sy_out sy @ map (Pair (wc_id c)) outs\<rparr>)"

definition sys_start :: "server \<Rightarrow> ws_system" where
  "sys_start st = \<lparr>sy_server = st, sy_conns = [], sy_queue = [], sy_taken = (\<lambda>ch. 0),
     sy_answered = (\<lambda>cid. 0), sy_out = []\<rparr>"

definition is_waiting :: "ws_conn \<Rightarrow> bool" where
  "is_waiting c \<longleftrightarrow> (case wc_phase c of Awaiting_shutdown \<Rightarrow> True | Awaiting b \<Rightarrow> True | _ \<Rightarrow> False)"

inductive sys_step :: "ws_system \<Rightarrow> ws_system \<Rightarrow> bool" where
  connect: "unat (next_client_id (sys_shared sy)) + 1 < 2 ^ 64 \<Longrightarrow>
    conn_new (sys_shared sy) = (c, w) \<Longrightarrow>
    sys_step sy (sy\<lparr>sy_server := (sy_server sy)\<lparr>sv_ws_shared := w\<rparr>, sy_conns := sy_conns sy @ [c]\<rparr>)"
| frame: "i < length (sy_conns sy) \<Longrightarrow> sy_conns sy ! i = c \<Longrightarrow> wc_phase c = Serving \<Longrightarrow>
    sys_step sy (after_conn i (conn_frame from_str f c (sys_shared sy)) sy)"
| event: "i < length (sy_conns sy) \<Longrightarrow> sy_conns sy ! i = c \<Longrightarrow> wc_phase c = Serving \<Longrightarrow>
    wc_rx c = Some ch \<Longrightarrow> recv_event sy ch = Some ev \<Longrightarrow>
    conn_event write_ok ev c (sys_shared sy) = Inr r \<Longrightarrow>
    sys_step sy (after_conn i r
      (if ev = None then sy else sy\<lparr>sy_taken := (sy_taken sy)(ch := Suc (sy_taken sy ch))\<rparr>))"
| reply: "i < length (sy_conns sy) \<Longrightarrow> sy_conns sy ! i = c \<Longrightarrow> is_waiting c \<Longrightarrow>
    recv_reply sy (wc_id c) = Some reply \<Longrightarrow>
    sys_step sy (after_conn i (conn_reply reply c (sys_shared sy))
      (if reply = None then sy
       else sy\<lparr>sy_answered := (sy_answered sy)(wc_id c := Suc (sy_answered sy (wc_id c)))\<rparr>))"
| command: "sy_queue sy = cmd # rest \<Longrightarrow> handle_ws_command e cmd (sy_server sy) = Inr st \<Longrightarrow>
    sys_step sy (sy\<lparr>sy_server := st, sy_queue := rest\<rparr>)"
| reap: "sys_step sy (sy\<lparr>sy_server := reap_sessions e (sy_server sy)\<rparr>)"
| idle: "sys_step sy (sy\<lparr>sy_server := snd (idle_check now (sy_server sy))\<rparr>)"
| loop_event: "dispatch_event E ev (sy_server sy) = Inr (ctl, st) \<Longrightarrow>
    sys_step sy (sy\<lparr>sy_server := st\<rparr>)"

inductive sys_reach :: "ws_system \<Rightarrow> bool" where
  start: "sys_reach (sys_start (server_start (server_new path listener pipe now)))"
| step: "sys_reach sy \<Longrightarrow> sys_step sy sy' \<Longrightarrow> sys_reach sy'"

subsection \<open>What a reaction does to the subscriptions\<close>

text \<open>
  A reaction of an open connection leaves subscriptions and its own side of them alone, gives
  its subscription up, or makes a new one.
\<close>

inductive conn_subs :: "ws_conn \<Rightarrow> ws_shared \<Rightarrow> ws_conn \<Rightarrow> ws_shared \<Rightarrow> bool" where
  same: "wc_id c' = wc_id c \<Longrightarrow> wc_phase c' \<noteq> Closed \<Longrightarrow> wc_attached c' = wc_attached c \<Longrightarrow>
    wc_rx c' = wc_rx c \<Longrightarrow> conn_subs c w c' w"
| dropped: "wc_id c' = wc_id c \<Longrightarrow>
    wc_phase c' = Closed \<or> wc_attached c' = None \<and> wc_rx c' = None \<Longrightarrow>
    conn_subs c w c' (unsubscribe_attached c w)"
| subscribed: "wc_id c' = wc_id c \<Longrightarrow> wc_phase c' \<noteq> Closed \<Longrightarrow> ws_subscribe sid (wc_id c) w = (ch, w') \<Longrightarrow>
    wc_attached c' = Some sid \<Longrightarrow> wc_rx c' = Some ch \<Longrightarrow> conn_subs c w c' w'"

text \<open>Requests sent and awaited, and the announcement of the end, go together.\<close>

definition conn_msgs :: "ws_conn \<Rightarrow> ws_conn \<Rightarrow> ws_command list \<Rightarrow> bool" where
  "conn_msgs c c' cmds \<longleftrightarrow>
     wc_id c' = wc_id c \<and>
     length (filter (is_request_of (wc_id c)) cmds) = (if is_waiting c' then 1 else 0) \<and>
     (\<forall>cid. cid \<noteq> wc_id c \<longrightarrow> filter (is_request_of cid) cmds = []) \<and>
     (\<forall>cid. Wc_disconnected cid \<in> set cmds \<longrightarrow> cid = wc_id c \<and> wc_phase c' = Closed)"

lemma conn_close_move: "conn_close c w outs = (c', w', cmds, outs') \<Longrightarrow> conn_subs c w c' w'"
  by (auto simp: conn_close_def intro: conn_subs.dropped)

lemma conn_frame_move:
  assumes "conn_frame from_str f c w = (c', w', cmds, outs)" and "wc_phase c = Serving"
  shows "conn_subs c w c' w'" "conn_msgs c c' cmds"
proof -
  have unsub: "wc_attached c = Some sid \<Longrightarrow> unsubscribe_attached c w = ws_unsubscribe sid (wc_id c) w" for sid
    by (simp add: unsubscribe_attached_def)
  show "conn_subs c w c' w'"
    using assms conn_close_move
    by (auto simp: conn_frame_def conn_text_def detach_first_def split: ws_frame.splits sum.splits
        if_splits prod.splits request.splits simp flip: unsub intro!: conn_subs.same conn_subs.dropped)
  show "conn_msgs c c' cmds"
    using assms
    by (auto simp: conn_close_def is_request_of_def conn_frame_def conn_text_def detach_first_def conn_msgs_def
        is_waiting_def split: ws_frame.splits sum.splits if_splits prod.splits request.splits option.splits)
qed

lemma conn_event_move:
  assumes "conn_event ok ev c w = Inr (c', w', cmds, outs)" and "wc_phase c = Serving"
  shows "conn_subs c w c' w'" "conn_msgs c c' cmds" "ev = Some Session_ended \<Longrightarrow> wc_rx c' = None"
proof -
  show "conn_subs c w c' w'"
    using assms conn_close_move
    by (auto simp: conn_event_def split: option.splits ws_event.splits if_splits
        intro!: conn_subs.same conn_subs.dropped)
  show "conn_msgs c c' cmds"
    using assms
    by (auto simp: conn_close_def is_request_of_def conn_event_def conn_msgs_def is_waiting_def split: option.splits ws_event.splits if_splits)
  show "ev = Some Session_ended \<Longrightarrow> wc_rx c' = None"
    using assms by (auto simp: conn_event_def split: option.splits)
qed

lemma conn_reply_move:
  assumes "conn_reply reply c w = (c', w', cmds, outs)" and "is_waiting c"
  shows "conn_subs c w c' w'" "conn_msgs c c' cmds" "\<not> is_waiting c'"
proof -
  show "conn_subs c w c' w'"
    using assms conn_close_move
    by (auto simp: conn_reply_def Let_def is_waiting_def split: conn_phase.splits response.splits
        prod.splits if_splits option.splits intro!: conn_subs.same intro: conn_subs.subscribed)
  show "conn_msgs c c' cmds"
    using assms
    by (auto simp: conn_close_def is_request_of_def conn_reply_def Let_def conn_msgs_def is_waiting_def split: conn_phase.splits response.splits
        prod.splits if_splits option.splits)
  show "\<not> is_waiting c'"
    using assms
    by (auto simp: conn_reply_def Let_def is_waiting_def conn_close_def split: conn_phase.splits response.splits
        prod.splits if_splits option.splits)
qed

end
