(* ===== verification/Ws_Props.thy ===== *)
theory Ws_Props
  imports Ws_System
begin

section \<open>What holds of the connections in every state of the system\<close>

text \<open>
  The invariant of connections and shared table, by induction over the system's steps, and the
  properties of viewers and requests that follow.
\<close>

subsection \<open>Subscriptions\<close>

text \<open>
  The invariant of one open connection: it has a receiver exactly when it is attached, and then
  its subscription is still there or the end of the session was sent to it, and not received.
\<close>

definition conn_ok :: "ws_shared \<Rightarrow> ws_sends \<Rightarrow> (nat \<Rightarrow> nat) \<Rightarrow> ws_conn \<Rightarrow> bool" where
  "conn_ok w sent taken c \<longleftrightarrow>
     (wc_rx c = None \<longleftrightarrow> wc_attached c = None) \<and>
     (\<forall>ch sid. wc_rx c = Some ch \<longrightarrow> wc_attached c = Some sid \<longrightarrow>
        ch < next_channel w \<and> Session_ended \<notin> set (take (taken ch) (sent_on ch sent)) \<and>
        (\<lparr>sub_tx = ch, sub_client_id = wc_id c\<rparr> \<in> set (subs_of w sid) \<or>
         Session_ended \<in> set (sent_on ch sent)))"

definition channels_ok :: "ws_shared \<Rightarrow> ws_sends \<Rightarrow> (nat \<Rightarrow> nat) \<Rightarrow> bool" where
  "channels_ok w sent taken \<longleftrightarrow>
     (\<forall>ch \<in> live_channels w. ch < next_channel w) \<and>
     (\<forall>ch. sent_on ch sent \<noteq> [] \<longrightarrow> ch < next_channel w) \<and>
     (\<forall>ch. taken ch \<le> length (sent_on ch sent))"

definition rx_unique :: "ws_conn set \<Rightarrow> bool" where
  "rx_unique C \<longleftrightarrow>
     (\<forall>c \<in> C. \<forall>d \<in> C. wc_phase c \<noteq> Closed \<longrightarrow> wc_phase d \<noteq> Closed \<longrightarrow> wc_rx c \<noteq> None \<longrightarrow>
        wc_rx c = wc_rx d \<longrightarrow> c = d)"

definition sessions_owned :: "ws_shared \<Rightarrow> ws_conn set \<Rightarrow> bool" where
  "sessions_owned w C \<longleftrightarrow>
     (\<forall>cid sid. map_of (client_sessions w) cid = Some sid \<longrightarrow>
        (\<exists>c \<in> C. wc_id c = cid \<and> wc_phase c \<noteq> Closed \<and> wc_attached c = Some sid))"

text \<open>
  Ids are unique and below the counter, no two open connections read one channel, and the table
  of client sessions names open attached connections only.
\<close>

definition subs_inv :: "ws_shared \<Rightarrow> ws_sends \<Rightarrow> (nat \<Rightarrow> nat) \<Rightarrow> ws_conn set \<Rightarrow> bool" where
  "subs_inv w sent taken C \<longleftrightarrow>
     inj_on wc_id C \<and> (\<forall>c \<in> C. unat (wc_id c) < unat (next_client_id w)) \<and>
     channels_ok w sent taken \<and>
     (\<forall>c \<in> C. wc_phase c \<noteq> Closed \<longrightarrow> conn_ok w sent taken c) \<and>
     rx_unique C \<and> sessions_owned w C"

lemma subs_invD:
  assumes "subs_inv w sent taken C" and "c \<in> C"
  shows "unat (wc_id c) < unat (next_client_id w)" "channels_ok w sent taken" "rx_unique C"
    and "sessions_owned w C" "wc_phase c \<noteq> Closed \<Longrightarrow> conn_ok w sent taken c"
    and "d \<in> C \<Longrightarrow> wc_id d = wc_id c \<Longrightarrow> d = c"
  using assms by (auto simp: subs_inv_def inj_on_def)

text \<open>One connection of the set is replaced by its new state.\<close>

lemma subs_inv_replace:
  assumes inv: "subs_inv w sent taken C" and c: "c \<in> C" and c': "wc_id c' = wc_id c"
    and w': "next_client_id w' = next_client_id w" "channels_ok w' sent taken" "sessions_owned w' (insert c' (C - {c}))"
    and ok: "wc_phase c' \<noteq> Closed \<Longrightarrow> conn_ok w' sent taken c'"
    and others: "\<And>d. d \<in> C \<Longrightarrow> wc_id d \<noteq> wc_id c \<Longrightarrow> conn_ok w sent taken d \<Longrightarrow> conn_ok w' sent taken d"
    and rx: "\<And>d. d \<in> C - {c} \<Longrightarrow> wc_phase d \<noteq> Closed \<Longrightarrow> wc_phase c' \<noteq> Closed \<Longrightarrow> wc_rx c' \<noteq> None \<Longrightarrow> wc_rx d \<noteq> wc_rx c'"
  shows "subs_inv w' sent taken (insert c' (C - {c}))"
  unfolding subs_inv_def
proof (intro conjI)
  have other: "wc_id d \<noteq> wc_id c" if "d \<in> C - {c}" for d
    using subs_invD(6) [OF inv c] that by blast
  show "inj_on wc_id (insert c' (C - {c}))"
    using inv other c' by (force simp: subs_inv_def inj_on_def)
  show "\<forall>d \<in> insert c' (C - {c}). unat (wc_id d) < unat (next_client_id w')"
    using subs_invD(1) [OF inv] c c' w'(1) by auto
  show "\<forall>d \<in> insert c' (C - {c}). wc_phase d \<noteq> Closed \<longrightarrow> conn_ok w' sent taken d"
    using subs_invD(5) [OF inv] ok others other by blast
  have "rx_unique C" using inv by (simp add: subs_inv_def)
  then show "rx_unique (insert c' (C - {c}))"
    using rx unfolding rx_unique_def by (metis insert_iff DiffD1)
qed (use w' in auto)

lemma sent_on_append: "sent_on k (xs @ ys) = sent_on k xs @ sent_on k ys"
  by (simp add: sent_on_def)

lemma sent_on_mem: "x \<in> set (sent_on k xs) \<longleftrightarrow> (k, x) \<in> set xs"
  by (force simp: sent_on_def)

lemma subs_of_unsubscribe:
  "subs_of (ws_unsubscribe sid cid w) sid' =
     (if sid' = sid then filter (\<lambda>s. sub_client_id s \<noteq> cid) (subs_of w sid) else subs_of w sid')"
  by (auto simp: subs_of_def ws_unsubscribe_def Let_def AList.delete_conv' AList.update_conv'
      split: option.splits)

lemma unsubscribe_simps:
  "next_client_id (ws_unsubscribe sid cid w) = next_client_id w"
  "next_channel (ws_unsubscribe sid cid w) = next_channel w"
  "map_of (client_sessions (ws_unsubscribe sid cid w)) k =
     (if k = cid then None else map_of (client_sessions w) k)"
  by (auto simp: ws_unsubscribe_def Let_def AList.delete_conv' split: option.splits)

lemma subscribe_simps:
  assumes "ws_subscribe sid cid w = (ch, w')"
  shows "ch = next_channel w" "next_client_id w' = next_client_id w" "next_channel w' = Suc ch"
    and "map_of (client_sessions w') k = (if k = cid then Some sid else map_of (client_sessions w) k)"
    and "subs_of w' sid' = (if sid' = sid then subs_of w sid @ [\<lparr>sub_tx = ch, sub_client_id = cid\<rparr>]
                            else subs_of w sid')"
  using assms by (auto simp: ws_subscribe_def Let_def subs_of_def AList.update_conv')

lemma live_unsubscribe: "live_channels (unsubscribe_attached c w) \<subseteq> live_channels w"
  by (auto simp: live_channels_def unsubscribe_attached_def subs_of_unsubscribe split: option.splits if_splits)

lemma conn_ok_unsubscribe:
  assumes "conn_ok w sent taken d" and "wc_id d \<noteq> wc_id c"
  shows "conn_ok (unsubscribe_attached c w) sent taken d"
  using assms
  by (cases "wc_attached c") (auto simp: conn_ok_def unsubscribe_attached_def unsubscribe_simps subs_of_unsubscribe)

lemma conn_ok_subscribe:
  assumes "conn_ok w sent taken d" and "ws_subscribe sid cid w = (ch, w')"
  shows "conn_ok w' sent taken d"
  using assms(1) subscribe_simps [OF assms(2)] by (auto simp: conn_ok_def)

lemma subs_inv_dropped:
  assumes inv: "subs_inv w sent taken C" and c: "c \<in> C" "wc_phase c \<noteq> Closed"
    and c': "wc_id c' = wc_id c" "wc_phase c' = Closed \<or> wc_attached c' = None \<and> wc_rx c' = None"
  shows "subs_inv (unsubscribe_attached c w) sent taken (insert c' (C - {c}))"
proof (rule subs_inv_replace [OF inv c(1) c'(1)])
  let ?w = "unsubscribe_attached c w"
  show ids: "next_client_id ?w = next_client_id w"
    by (simp add: unsubscribe_attached_def unsubscribe_simps split: option.splits)
  have "next_channel ?w = next_channel w"
    by (simp add: unsubscribe_attached_def unsubscribe_simps split: option.splits)
  then show "channels_ok ?w sent taken"
    using subs_invD(2) [OF inv c(1)] live_unsubscribe [of c w] unfolding channels_ok_def by auto
  note owned = subs_invD(4) [OF inv c(1), unfolded sessions_owned_def, rule_format]
  show "sessions_owned ?w (insert c' (C - {c}))"
    unfolding sessions_owned_def
  proof (intro allI impI)
    fix cid sid assume m: "map_of (client_sessions ?w) cid = Some sid"
    then have old: "map_of (client_sessions w) cid = Some sid"
      by (auto simp: unsubscribe_attached_def unsubscribe_simps split: option.splits if_splits)
    then obtain d where d: "d \<in> C" "wc_id d = cid" "wc_phase d \<noteq> Closed" "wc_attached d = Some sid"
      using owned by blast
    have "d \<noteq> c"
      using m d by (auto simp: unsubscribe_attached_def unsubscribe_simps split: option.splits)
    with d show "\<exists>d \<in> insert c' (C - {c}). wc_id d = cid \<and> wc_phase d \<noteq> Closed \<and> wc_attached d = Some sid"
      by blast
  qed
  show "wc_phase c' \<noteq> Closed \<Longrightarrow> conn_ok ?w sent taken c'" using c'(2) by (simp add: conn_ok_def)
  show "conn_ok ?w sent taken d" if "wc_id d \<noteq> wc_id c" "conn_ok w sent taken d" for d
    using that conn_ok_unsubscribe by blast
  show "wc_rx d \<noteq> wc_rx c'" if "wc_phase c' \<noteq> Closed" "wc_rx c' \<noteq> None" for d
    using that c'(2) by simp
qed

lemma subs_inv_subscribed:
  assumes inv: "subs_inv w sent taken C" and c: "c \<in> C" "wc_phase c \<noteq> Closed"
    and sub: "ws_subscribe sid (wc_id c) w = (ch, w')"
    and c': "wc_id c' = wc_id c" "wc_phase c' \<noteq> Closed" "wc_attached c' = Some sid" "wc_rx c' = Some ch"
  shows "subs_inv w' sent taken (insert c' (C - {c}))"
proof (rule subs_inv_replace [OF inv c(1) c'(1)])
  note w' = subscribe_simps [OF sub]
  note chan = subs_invD(2) [OF inv c(1), unfolded channels_ok_def]
  show "next_client_id w' = next_client_id w" by (rule w'(2))
  have live: "live_channels w' \<subseteq> insert ch (live_channels w)"
    using w'(5) by (auto simp: live_channels_def split: if_splits)
  then show "channels_ok w' sent taken"
    using chan unfolding channels_ok_def w'(1,3) by (auto simp: less_Suc_eq)
  have none: "sent_on ch sent = []" using chan w'(1) by blast
  then show "conn_ok w' sent taken c'"
    using c' w'(1,3,5) by (simp add: conn_ok_def)
  show "conn_ok w' sent taken d" if "conn_ok w sent taken d" for d
    using that sub by (rule conn_ok_subscribe)
  show "wc_rx d \<noteq> wc_rx c'" if "d \<in> C - {c}" "wc_phase d \<noteq> Closed" for d
    using subs_invD(5) [OF inv, of d] that w'(1) c'(4) by (auto simp: conn_ok_def)
  note owned = subs_invD(4) [OF inv c(1), unfolded sessions_owned_def, rule_format]
  show "sessions_owned w' (insert c' (C - {c}))"
    unfolding sessions_owned_def
  proof (intro allI impI)
    fix cid sid' assume m: "map_of (client_sessions w') cid = Some sid'"
    show "\<exists>d \<in> insert c' (C - {c}). wc_id d = cid \<and> wc_phase d \<noteq> Closed \<and> wc_attached d = Some sid'"
    proof (cases "cid = wc_id c")
      case True
      then show ?thesis using m w'(4) c' by auto
    next
      case False
      then have "map_of (client_sessions w) cid = Some sid'" using m w'(4) by simp
      with owned False show ?thesis by blast
    qed
  qed
qed

lemma subs_inv_same:
  assumes inv: "subs_inv w sent taken C" and c: "c \<in> C" "wc_phase c \<noteq> Closed"
    and c': "wc_id c' = wc_id c" "wc_phase c' \<noteq> Closed" "wc_attached c' = wc_attached c" "wc_rx c' = wc_rx c"
  shows "subs_inv w sent taken (insert c' (C - {c}))"
proof (rule subs_inv_replace [OF inv c(1) c'(1)])
  show "channels_ok w sent taken" by (rule subs_invD(2) [OF inv c(1)])
  show "conn_ok w sent taken c'" using subs_invD(5) [OF inv c] c' by (simp add: conn_ok_def)
  show "wc_rx d \<noteq> wc_rx c'" if "d \<in> C - {c}" "wc_phase d \<noteq> Closed" "wc_rx c' \<noteq> None" for d
  proof
    assume "wc_rx d = wc_rx c'"
    then have "wc_rx c \<noteq> None" "wc_rx c = wc_rx d" using c'(4) that(3) by simp_all
    with subs_invD(3) [OF inv c(1), unfolded rx_unique_def, rule_format, of c d] c that(1,2) show False
      by blast
  qed
  note owned = subs_invD(4) [OF inv c(1), unfolded sessions_owned_def, rule_format]
  show "sessions_owned w (insert c' (C - {c}))"
    unfolding sessions_owned_def
  proof (intro allI impI)
    fix cid sid assume "map_of (client_sessions w) cid = Some sid"
    from owned [OF this] obtain d where d: "d \<in> C" "wc_id d = cid" "wc_phase d \<noteq> Closed" "wc_attached d = Some sid"
      by blast
    show "\<exists>d \<in> insert c' (C - {c}). wc_id d = cid \<and> wc_phase d \<noteq> Closed \<and> wc_attached d = Some sid"
    proof (cases "d = c")
      case True
      with d c' show ?thesis by auto
    next
      case False
      with d show ?thesis by blast
    qed
  qed
qed simp_all

lemma subs_inv_move:
  assumes "subs_inv w sent taken C" "c \<in> C" "wc_phase c \<noteq> Closed" "conn_subs c w c' w'"
  shows "subs_inv w' sent taken (insert c' (C - {c}))"
  using assms(4)
proof (cases rule: conn_subs.cases)
  case same
  then show ?thesis using subs_inv_same [OF assms(1-3)] by simp
next
  case dropped
  then show ?thesis using subs_inv_dropped [OF assms(1-3)] by simp
next
  case (subscribed sid ch)
  then show ?thesis using subs_inv_subscribed [OF assms(1-3)] by simp
qed

lemma subs_inv_evolves:
  assumes inv: "subs_inv w sent taken C" and ev: "part_evolves (w, sent, rs) (w', sent', rs')"
  shows "subs_inv w' sent' taken C"
proof -
  obtain new where new: "sent' = sent @ new" "fst ` set new \<subseteq> live_channels w"
    using ev by auto
  have ids: "next_client_id w' = next_client_id w" "next_channel w' = next_channel w"
    using ev by simp_all
  have chan: "channels_ok w sent taken" using inv by (simp add: subs_inv_def)
  have "sent_on ch new \<noteq> [] \<Longrightarrow> ch \<in> live_channels w" for ch
    using new(2) by (cases "sent_on ch new") (force simp: sent_on_def filter_eq_Cons_iff)+
  moreover have "live_channels w' \<subseteq> live_channels w"
    using ev by (fastforce simp: live_channels_def)
  ultimately have "channels_ok w' sent' taken"
    using chan unfolding channels_ok_def new(1) ids sent_on_append
    by (metis append_is_Nil_conv length_append subsetD trans_le_add1)
  moreover have "conn_ok w' sent' taken c" if "conn_ok w sent taken c" for c
  proof -
    have "take (taken ch) (sent_on ch sent') = take (taken ch) (sent_on ch sent)" for ch
      using chan by (simp add: channels_ok_def new(1) sent_on_append)
    moreover have "Session_ended \<in> set (sent_on ch sent')"
      if "\<lparr>sub_tx = ch, sub_client_id = wc_id c\<rparr> \<in> set (subs_of w sid)"
        "\<lparr>sub_tx = ch, sub_client_id = wc_id c\<rparr> \<notin> set (subs_of w' sid)" for ch sid
    proof -
      have "\<forall>sid sub. sub \<in> set (subs_of w sid) \<longrightarrow>
          sub \<in> set (subs_of w' sid) \<or> (sub_tx sub, Session_ended) \<in> set sent'"
        using ev by simp
      with that show ?thesis by (metis sent_on_mem ws_subscriber.select_convs(1))
    qed
    moreover have "Session_ended \<in> set (sent_on ch sent) \<Longrightarrow> Session_ended \<in> set (sent_on ch sent')" for ch
      by (simp add: new(1) sent_on_append)
    ultimately show ?thesis
      using that unfolding conn_ok_def ids by metis
  qed
  moreover have "sessions_owned w C \<Longrightarrow> sessions_owned w' C"
    using ev unfolding sessions_owned_def by simp
  ultimately show ?thesis using inv ids unfolding subs_inv_def by simp
qed

lemma subs_inv_taken:
  assumes inv: "subs_inv w sent taken C" and n: "taken ch < length (sent_on ch sent)"
    and ended: "sent_on ch sent ! taken ch = Session_ended \<Longrightarrow>
      (\<forall>c \<in> C. wc_phase c \<noteq> Closed \<longrightarrow> wc_rx c \<noteq> Some ch)"
  shows "subs_inv w sent (taken(ch := Suc (taken ch))) C"
proof -
  have "channels_ok w sent (taken(ch := Suc (taken ch)))"
    using inv n by (auto simp: subs_inv_def channels_ok_def)
  moreover have "conn_ok w sent (taken(ch := Suc (taken ch))) c"
    if c: "c \<in> C" "wc_phase c \<noteq> Closed" "conn_ok w sent taken c" for c
  proof (cases "wc_rx c = Some ch")
    case True
    then have "sent_on ch sent ! taken ch \<noteq> Session_ended" using ended c by blast
    with True c(3) show ?thesis
      by (auto simp: conn_ok_def take_Suc_conv_app_nth [OF n])
  next
    case False
    with c(3) show ?thesis by (auto simp: conn_ok_def)
  qed
  ultimately show ?thesis using inv unfolding subs_inv_def by simp
qed


lemma subs_inv_connect:
  assumes inv: "subs_inv w sent taken C" and n: "unat (next_client_id w) + 1 < 2 ^ 64"
    and c: "conn_new w = (c, w')"
  shows "subs_inv w' sent taken (insert c C)"
proof -
  have c': "wc_id c = next_client_id w" "wc_attached c = None" "wc_rx c = None"
    and w': "w' = w\<lparr>next_client_id := next_client_id w + 1\<rparr>"
    using c by (auto simp: conn_new_def ws_next_client_id_def)
  have next_id: "unat (next_client_id w') = Suc (unat (next_client_id w))"
    using n unat_add_lem [of "next_client_id w" 1] by (simp add: w')
  have fresh: "d \<in> C \<Longrightarrow> wc_id d \<noteq> wc_id c" for d
    using inv c'(1) unfolding subs_inv_def by auto
  have "conn_ok w' sent taken d = conn_ok w sent taken d" for d
    by (simp add: conn_ok_def w' subs_of_def)
  moreover have "conn_ok w sent taken c" using c' by (simp add: conn_ok_def)
  moreover have "live_channels w' = live_channels w" by (simp add: live_channels_def w' subs_of_def)
  then have "channels_ok w' sent taken = channels_ok w sent taken"
    by (simp add: channels_ok_def) (simp add: w')
  moreover have "rx_unique C \<Longrightarrow> rx_unique (insert c C)"
    using c' by (auto simp: rx_unique_def)
  moreover have "sessions_owned w C \<Longrightarrow> sessions_owned w' (insert c C)"
    unfolding sessions_owned_def w' by auto
  moreover have "inj_on wc_id C \<Longrightarrow> inj_on wc_id (insert c C)"
    unfolding inj_on_insert image_iff using fresh by (blast dest: sym)
  moreover have "\<forall>d \<in> insert c C. unat (wc_id d) < unat (next_client_id w')"
    using inv c'(1) next_id unfolding subs_inv_def by (auto simp: less_Suc_eq)
  ultimately show ?thesis using inv unfolding subs_inv_def by simp
qed

subsection \<open>Requests and replies\<close>

text \<open>
  Per connection: the requests in the queue and the replies not received yet are one in all
  while it waits and none otherwise; and a queued end means that the connection is closed.
\<close>

definition waiting_for :: "u64 \<Rightarrow> ws_conn set \<Rightarrow> nat" where
  "waiting_for cid C = (if \<exists>c \<in> C. wc_id c = cid \<and> is_waiting c then 1 else 0)"

definition msgs_inv :: "ws_command list \<Rightarrow> (u64 \<times> response) list \<Rightarrow> (u64 \<Rightarrow> nat) \<Rightarrow> ws_conn set \<Rightarrow> bool" where
  "msgs_inv queue replies answered C \<longleftrightarrow>
     (\<forall>cid. length (filter (is_request_of cid) queue) + length (sent_on cid replies) =
            answered cid + waiting_for cid C \<and>
            answered cid \<le> length (sent_on cid replies)) \<and>
     (\<forall>cid. Wc_disconnected cid \<in> set queue \<longrightarrow> (\<exists>c \<in> C. wc_id c = cid \<and> wc_phase c = Closed))"

lemma waiting_for_replace:
  assumes "inj_on wc_id C" "c \<in> C" "wc_id c' = wc_id c"
  shows "waiting_for cid (insert c' (C - {c})) =
     (if cid = wc_id c then if is_waiting c' then 1 else 0 else waiting_for cid C)"
    and "waiting_for (wc_id c) C = (if is_waiting c then 1 else 0)"
  using assms by (auto simp: waiting_for_def inj_on_def)

lemma msgs_inv_move:
  assumes inv: "msgs_inv queue replies answered C" and C: "inj_on wc_id C" "c \<in> C" "wc_phase c \<noteq> Closed"
    and m: "conn_msgs c c' cmds"
    and answered: "answered' = (if is_waiting c then answered(wc_id c := Suc (answered (wc_id c))) else answered)"
    and unread: "is_waiting c \<Longrightarrow> answered (wc_id c) < length (sent_on (wc_id c) replies)"
  shows "msgs_inv (queue @ cmds) replies answered' (insert c' (C - {c}))"
proof -
  from m have m: "wc_id c' = wc_id c"
      "length (filter (is_request_of (wc_id c)) cmds) = (if is_waiting c' then 1 else 0)"
      "\<And>cid. cid \<noteq> wc_id c \<Longrightarrow> filter (is_request_of cid) cmds = []"
      "\<And>cid. Wc_disconnected cid \<in> set cmds \<Longrightarrow> cid = wc_id c \<and> wc_phase c' = Closed"
    by (simp_all add: conn_msgs_def)
  note wait = waiting_for_replace [OF C(1,2) m(1)]
  have "length (filter (is_request_of cid) (queue @ cmds)) + length (sent_on cid replies) =
      answered' cid + waiting_for cid (insert c' (C - {c})) \<and> answered' cid \<le> length (sent_on cid replies)" for cid
  proof -
    have old: "length (filter (is_request_of cid) queue) + length (sent_on cid replies) =
        answered cid + waiting_for cid C" "answered cid \<le> length (sent_on cid replies)"
      using inv unfolding msgs_inv_def by blast+
    show ?thesis
    proof (cases "cid = wc_id c")
      case True
      then show ?thesis using old m(2) wait answered unread by auto
    next
      case False
      then show ?thesis using old m(3) [OF False] wait(1) [of cid] answered by simp
    qed
  qed
  moreover have "\<exists>d \<in> insert c' (C - {c}). wc_id d = cid \<and> wc_phase d = Closed"
    if "Wc_disconnected cid \<in> set (queue @ cmds)" for cid
  proof (cases "Wc_disconnected cid \<in> set cmds")
    case True
    with m show ?thesis by auto
  next
    case False
    with that inv obtain d where "d \<in> C" "wc_id d = cid" "wc_phase d = Closed"
      unfolding msgs_inv_def by auto
    with C(3) show ?thesis by blast
  qed
  ultimately show ?thesis unfolding msgs_inv_def by blast
qed

lemma msgs_inv_connect:
  assumes "msgs_inv queue replies answered C" "\<not> is_waiting c"
  shows "msgs_inv queue replies answered (insert c C)"
proof -
  have "waiting_for cid (insert c C) = waiting_for cid C" for cid
    using assms(2) by (auto simp: waiting_for_def)
  with assms(1) show ?thesis unfolding msgs_inv_def by auto
qed

subsection \<open>The invariant of the system\<close>

definition sys_inv :: "ws_system \<Rightarrow> bool" where
  "sys_inv sy \<longleftrightarrow>
     distinct (sy_conns sy) \<and>
     subs_inv (sys_shared sy) (sv_ws_sent (sy_server sy)) (sy_taken sy) (set (sy_conns sy)) \<and>
     msgs_inv (sy_queue sy) (sv_ws_replies (sy_server sy)) (sy_answered sy) (set (sy_conns sy))"

lemma sys_inv_start:
  "sys_inv (sys_start (server_start (server_new path listener pipe now)))"
  by (simp add: sys_inv_def sys_start_def server_start_def emit_def server_new_def sys_shared_def ws_new_def
      subs_inv_def msgs_inv_def channels_ok_def live_channels_def subs_of_def sent_on_def rx_unique_def
      sessions_owned_def waiting_for_def)

text \<open>A step of the main loop that answers no request.\<close>

lemma sys_inv_server:
  assumes "sys_inv sy" "ws_evolves (sy_server sy) st"
  shows "sys_inv (sy\<lparr>sy_server := st\<rparr>)"
proof -
  have "part_evolves (sys_shared sy, sv_ws_sent (sy_server sy), sv_ws_replies (sy_server sy))
      (sv_ws_shared st, sv_ws_sent st, sv_ws_replies st)"
    using assms(2) by (simp add: ws_evolves_def ws_part_def sys_shared_def)
  with subs_inv_evolves [OF _ this] assms(1) show ?thesis
    by (simp add: sys_inv_def sys_shared_def)
qed

text \<open>A reaction of connection \<open>i\<close>.\<close>

lemma sys_inv_conn:
  assumes inv: "sys_inv sy" and i: "i < length (sy_conns sy)" "sy_conns sy ! i = c" "wc_phase c \<noteq> Closed"
    and move: "conn_subs c (sys_shared sy) c' w'" "conn_msgs c c' cmds"
    and answered: "answered = (if is_waiting c
      then (sy_answered sy)(wc_id c := Suc (sy_answered sy (wc_id c))) else sy_answered sy)"
    and unread: "is_waiting c \<Longrightarrow>
      sy_answered sy (wc_id c) < length (sent_on (wc_id c) (sv_ws_replies (sy_server sy)))"
  shows "sys_inv (after_conn i (c', w', cmds, outs) (sy\<lparr>sy_answered := answered\<rparr>))"
proof -
  let ?C = "set (sy_conns sy)"
  from inv have d: "distinct (sy_conns sy)"
    and s: "subs_inv (sys_shared sy) (sv_ws_sent (sy_server sy)) (sy_taken sy) ?C"
    and m: "msgs_inv (sy_queue sy) (sv_ws_replies (sy_server sy)) (sy_answered sy) ?C"
    by (simp_all add: sys_inv_def)
  have c: "c \<in> ?C" using i by (metis nth_mem)
  have set: "set ((sy_conns sy)[i := c']) = insert c' (?C - {c})"
    using set_update_distinct [OF d i(1)] i(2) by simp
  have inj: "inj_on wc_id ?C" using s by (simp add: subs_inv_def)
  have "wc_id c' = wc_id c" using move(2) by (simp add: conn_msgs_def)
  then have "c' \<notin> ?C - {c}" using inj c by (auto simp: inj_on_def)
  then have "distinct ((sy_conns sy)[i := c'])"
    using d i by (intro distinct_list_update) simp_all
  moreover have "subs_inv w' (sv_ws_sent (sy_server sy)) (sy_taken sy) (insert c' (?C - {c}))"
    using s c i(3) move(1) by (rule subs_inv_move)
  moreover have "msgs_inv (sy_queue sy @ cmds) (sv_ws_replies (sy_server sy)) answered (insert c' (?C - {c}))"
    using m inj c i(3) move(2) answered unread by (rule msgs_inv_move)
  ultimately show ?thesis
    by (simp add: sys_inv_def after_conn_def sys_shared_def set)
qed


lemma recv_event_cases:
  assumes "recv_event sy ch = Some ev"
  obtains "sy_taken sy ch < length (sent_on ch (sv_ws_sent (sy_server sy)))"
      "ev = Some (sent_on ch (sv_ws_sent (sy_server sy)) ! sy_taken sy ch)"
  | "length (sent_on ch (sv_ws_sent (sy_server sy))) \<le> sy_taken sy ch" "ev = None"
      "\<not> channel_open (sys_shared sy) ch"
  using assms by (auto simp: recv_event_def Let_def split: if_splits)

lemma channel_open_iff: "channel_open w ch \<longleftrightarrow> ch \<in> live_channels w"
proof -
  have "sid \<in> set (map fst (subscribers w))" if "sub \<in> set (subs_of w sid)" for sub sid
    using that by (cases "map_of (subscribers w) sid") (force simp: subs_of_def dest: map_of_SomeD)+
  then show ?thesis unfolding channel_open_def live_channels_def by blast
qed

text \<open>
  An attached connection always finds events or an open channel: the channel of a subscription
  closes only after the end of the session was sent on it.
\<close>

lemma recv_event_attached:
  assumes inv: "sys_inv sy" and c: "c \<in> set (sy_conns sy)" "wc_phase c \<noteq> Closed" "wc_rx c = Some ch"
  shows "recv_event sy ch \<noteq> Some None" "wc_attached c \<noteq> None"
proof -
  let ?sent = "sv_ws_sent (sy_server sy)"
  have ok: "conn_ok (sys_shared sy) ?sent (sy_taken sy) c"
    using inv c unfolding sys_inv_def subs_inv_def by blast
  then show "wc_attached c \<noteq> None" using c(3) by (auto simp: conn_ok_def)
  then obtain sid where sid: "wc_attached c = Some sid" by blast
  from ok sid c(3) have new: "Session_ended \<notin> set (take (sy_taken sy ch) (sent_on ch ?sent))"
    and live: "\<lparr>sub_tx = ch, sub_client_id = wc_id c\<rparr> \<in> set (subs_of (sys_shared sy) sid) \<or>
         Session_ended \<in> set (sent_on ch ?sent)"
    by (auto simp: conn_ok_def)
  show "recv_event sy ch \<noteq> Some None"
  proof
    assume r: "recv_event sy ch = Some None"
    then have all: "length (sent_on ch ?sent) \<le> sy_taken sy ch" "\<not> channel_open (sys_shared sy) ch"
      by (auto elim: recv_event_cases)
    have "\<lparr>sub_tx = ch, sub_client_id = wc_id c\<rparr> \<notin> set (subs_of (sys_shared sy) sid)"
      using all(2) unfolding channel_open_iff live_channels_def
      by (metis (mono_tags, lifting) mem_Collect_eq ws_subscriber.select_convs(1))
    with live new all(1) show False by simp
  qed
qed

text \<open>
  A connection that waits has its request in the queue or an unread reply, exactly one of them.
\<close>

lemma waiting_conn:
  assumes "sys_inv sy" "c \<in> set (sy_conns sy)" "is_waiting c"
  shows "length (filter (is_request_of (wc_id c)) (sy_queue sy)) = 1 \<and> recv_reply sy (wc_id c) = None \<or>
     filter (is_request_of (wc_id c)) (sy_queue sy) = [] \<and> (\<exists>r. recv_reply sy (wc_id c) = Some (Some r))"
proof -
  let ?cid = "wc_id c"
  let ?q = "filter (is_request_of ?cid) (sy_queue sy)"
  have "waiting_for ?cid (set (sy_conns sy)) = 1" using assms(2,3) by (auto simp: waiting_for_def)
  then have n: "length ?q + length (sent_on ?cid (sv_ws_replies (sy_server sy))) = Suc (sy_answered sy ?cid)"
      "sy_answered sy ?cid \<le> length (sent_on ?cid (sv_ws_replies (sy_server sy)))"
    using assms(1) unfolding sys_inv_def msgs_inv_def by auto
  have ex: "list_ex (is_request_of ?cid) (sy_queue sy) \<longleftrightarrow> ?q \<noteq> []"
    by (simp add: list_ex_iff filter_empty_conv)
  show ?thesis
  proof (cases "?q = []")
    case True
    with n show ?thesis by (simp add: recv_reply_def Let_def)
  next
    case False
    then have "0 < length ?q" by simp
    with n have "length ?q = 1" "\<not> sy_answered sy ?cid < length (sent_on ?cid (sv_ws_replies (sy_server sy)))"
      by linarith+
    with False ex show ?thesis by (simp add: recv_reply_def Let_def)
  qed
qed

lemma sys_inv_event:
  assumes inv: "sys_inv sy" and i: "i < length (sy_conns sy)" "sy_conns sy ! i = c" "wc_phase c = Serving"
    and rx: "wc_rx c = Some ch" "recv_event sy ch = Some ev"
    and r: "conn_event ok ev c (sys_shared sy) = Inr (c', w', cmds, outs)"
  shows "sys_inv (after_conn i (c', w', cmds, outs)
      (if ev = None then sy else sy\<lparr>sy_taken := (sy_taken sy)(ch := Suc (sy_taken sy ch))\<rparr>))"
proof -
  let ?sy = "after_conn i (c', w', cmds, outs) sy"
  have open_c: "wc_phase c \<noteq> Closed" "\<not> is_waiting c" using i(3) by (simp_all add: is_waiting_def)
  have moved: "sys_inv ?sy"
    using sys_inv_conn [OF inv i(1,2) open_c(1) conn_event_move(1,2) [OF r i(3)]] open_c(2) by simp
  have c: "c \<in> set (sy_conns sy)" using i by (metis nth_mem)
  show ?thesis
  proof (cases ev)
    case None
    with moved show ?thesis by simp
  next
    case (Some event)
    let ?sent = "sv_ws_sent (sy_server sy)"
    from rx(2) Some have n: "sy_taken sy ch < length (sent_on ch ?sent)"
      "event = sent_on ch ?sent ! sy_taken sy ch"
      by (auto elim: recv_event_cases)
    let ?C = "set (sy_conns ?sy)"
    have C: "?C = insert c' (set (sy_conns sy) - {c})"
      using inv i(1,2) by (simp add: after_conn_def sys_inv_def set_update_distinct)
    have "wc_rx d \<noteq> Some ch" if "event = Session_ended" "d \<in> ?C" "wc_phase d \<noteq> Closed" for d
    proof (cases "d = c'")
      case True
      then show ?thesis using conn_event_move(3) [OF r i(3)] that(1) Some by simp
    next
      case False
      then have d: "d \<in> set (sy_conns sy)" "d \<noteq> c" using that(2) C by auto
      have "rx_unique (set (sy_conns sy))" using inv by (simp add: sys_inv_def subs_inv_def)
      with d that(3) c open_c(1) rx(1) show ?thesis unfolding rx_unique_def by (metis option.distinct(1))
    qed
    then have "subs_inv w' ?sent ((sy_taken sy)(ch := Suc (sy_taken sy ch))) ?C"
      using moved n by (intro subs_inv_taken) (auto simp: sys_inv_def after_conn_def sys_shared_def)
    with moved Some show ?thesis
      by (simp add: sys_inv_def after_conn_def sys_shared_def)
  qed
qed

lemma sys_inv_step:
  assumes "sys_step sy sy'" and inv: "sys_inv sy"
  shows "sys_inv sy'"
  using assms
proof (induction rule: sys_step.induct)
  case (connect sy c w)
  let ?C = "set (sy_conns sy)"
  have s: "subs_inv w (sv_ws_sent (sy_server sy)) (sy_taken sy) (insert c ?C)"
    using subs_inv_connect [OF _ connect(1,2)] connect(3) unfolding sys_inv_def by blast
  have "\<not> is_waiting c" "wc_id c = next_client_id (sys_shared sy)"
    using connect(2) by (auto simp: conn_new_def ws_next_client_id_def is_waiting_def)
  then have "c \<notin> ?C" "msgs_inv (sy_queue sy) (sv_ws_replies (sy_server sy)) (sy_answered sy) (insert c ?C)"
    using connect(3) by (auto simp: sys_inv_def subs_inv_def intro: msgs_inv_connect)
  with s connect(3) show ?case by (simp add: sys_inv_def sys_shared_def)
next
  case (frame i sy c from_str f)
  obtain c' w' cmds outs where r: "conn_frame from_str f c (sys_shared sy) = (c', w', cmds, outs)"
    by (metis prod_cases4)
  from sys_inv_conn [OF frame(4,1,2) _ conn_frame_move [OF r frame(3)]] frame(3) r show ?case
    by (simp add: is_waiting_def)
next
  case (event i sy c ch ev write_ok r)
  obtain c' w' cmds outs where r: "r = (c', w', cmds, outs)" by (metis prod_cases4)
  from sys_inv_event [OF event(7) event(1-5) event(6) [unfolded r]] r show ?case by simp
next
  case (reply i sy c reply)
  obtain c' w' cmds outs where r: "conn_reply reply c (sys_shared sy) = (c', w', cmds, outs)"
    by (metis prod_cases4)
  have c: "c \<in> set (sy_conns sy)" using reply(1,2) by (metis nth_mem)
  have "sy_answered sy (wc_id c) < length (sent_on (wc_id c) (sv_ws_replies (sy_server sy)))" "reply \<noteq> None"
    using waiting_conn [OF reply(5) c reply(3)] reply(4) by (auto simp: recv_reply_def Let_def split: if_splits)
  moreover have "wc_phase c \<noteq> Closed" using reply(3) by (auto simp: is_waiting_def)
  ultimately show ?case
    using sys_inv_conn [OF reply(5,1,2) _ conn_reply_move(1,2) [OF r reply(3)]] reply(3) r by auto
next
  case (command sy cmd rest e st)
  from command(2) show ?case
  proof (cases rule: ws_command_evolves)
    case 1
    then have "sys_inv (sy\<lparr>sy_server := st\<rparr>)" using command(3) by (intro sys_inv_server)
    moreover have "\<not> is_request_of cid cmd" for cid
      using 1(1) by (simp add: is_request_of_def split: ws_command.split)
    ultimately show ?thesis
      using command(1) by (simp add: sys_inv_def sys_shared_def msgs_inv_def)
  next
    case (2 cid req resp st1)
    then have "sys_inv (sy\<lparr>sy_server := st1\<rparr>)" using command(3) by (intro sys_inv_server)
    then have old: "subs_inv (sv_ws_shared st1) (sv_ws_sent st1) (sy_taken sy) (set (sy_conns sy))"
        "msgs_inv (sy_queue sy) (sv_ws_replies st1) (sy_answered sy) (set (sy_conns sy))" "distinct (sy_conns sy)"
      by (simp_all add: sys_inv_def sys_shared_def)
    have "length (filter (is_request_of k) (cmd # rest)) + length (sent_on k (sv_ws_replies st1)) =
        length (filter (is_request_of k) rest) + length (sent_on k (sv_ws_replies st1 @ [(cid, resp)]))" for k
      by (simp add: 2(1) is_request_of_def sent_on_def)
    then have "msgs_inv rest (sv_ws_replies st1 @ [(cid, resp)]) (sy_answered sy) (set (sy_conns sy))"
      using old(2) command(1) unfolding msgs_inv_def by (auto simp: sent_on_append add_ac trans_le_add1)
    with old 2(3) show ?thesis by (simp add: sys_inv_def sys_shared_def)
  qed
next
  case (reap sy e)
  then show ?case by (intro sys_inv_server reap_evolves)
next
  case (idle sy now)
  have "ws_evolves (sy_server sy) (snd (idle_check now (sy_server sy)))"
    by (intro ws_evolves_same) (simp add: idle_check_def Let_def ws_kept split: option.split)
  with idle show ?case by (intro sys_inv_server)
next
  case (loop_event E ev sy ctl st)
  then show ?case by (intro sys_inv_server dispatch_evolves)
qed

lemma sys_reach_inv: "sys_reach sy \<Longrightarrow> sys_inv sy"
  by (induction rule: sys_reach.induct) (auto intro: sys_inv_start sys_inv_step)


subsection \<open>A run with a viewer\<close>

text \<open>
  A client connects, creates a session, attaches it, and the session's child dies; the daemon
  reaps the session and tells the client.
\<close>

definition demo_conn :: "conn_phase \<Rightarrow> bool \<Rightarrow> ws_conn" where
  "demo_conn ph attached =
     \<lparr>wc_id = 1, wc_attached = (if attached then Some 7 else None),
      wc_rx = (if attached then Some 0 else None), wc_phase = ph\<rparr>"

definition demo_create :: request where
  "demo_create = Req_Create None 80 24 None None None"

lemma shared_unchanged: "sv_ws_shared st = w \<Longrightarrow> st\<lparr>sv_ws_shared := w\<rparr> = st"
  by (cases st) simp

lemma sys_reach_frame:
  assumes "sys_reach sy" "sy_conns sy = [c]" "wc_phase c = Serving"
  shows "sys_reach (after_conn 0 (conn_frame from_str f c (sys_shared sy)) sy)"
  using assms by (intro sys_reach.step [OF assms(1)] sys_step.frame) simp_all

lemma sys_reach_reply:
  assumes "sys_reach sy" "sy_conns sy = [c]" "is_waiting c" "recv_reply sy (wc_id c) = Some (Some r)"
  shows "sys_reach (after_conn 0 (conn_reply (Some r) c (sys_shared sy))
      (sy\<lparr>sy_answered := (sy_answered sy)(wc_id c := Suc (sy_answered sy (wc_id c)))\<rparr>))"
  using sys_reach.step [OF assms(1) sys_step.reply [of 0 sy c "Some r"]] assms by simp

lemma demo_viewer_created:
  "\<exists>st s. sys_reach \<lparr>sy_server = st, sy_conns = [demo_conn Serving False], sy_queue = [],
       sy_taken = (\<lambda>ch. 0), sy_answered = (\<lambda>cid. 0)(1 := 1), sy_out = [(1, Out_response (Created 7))]\<rparr> \<and>
     sv_ws_shared st = ws_new\<lparr>next_client_id := 2\<rparr> \<and> sv_ws_sent st = [] \<and> sv_ws_replies st = [(1, Created 7)] \<and>
     sv_sessions st = [(7, s)] \<and> s_state s = Active \<and> s_child_pid s = 100 \<and> ring_holds s []"
proof -
  obtain s cs where s: "session_new 0 7 demo_shm 11 100 ''/dev/ttys1'' \<lparr>ws_cols = 80, ws_rows = 24\<rparr> None =
      (Inr s, map Shm_sys cs)" "s_id s = 7" "s_state s = Active" "s_child_pid s = 100" "ring_holds s []"
    using demo_session_new by blast
  let ?w = "ws_new\<lparr>next_client_id := 2\<rparr>"
  let ?st = "demo_start\<lparr>sv_ws_shared := ?w\<rparr>"
  let ?sy = "\<lambda>st ph q n outs. \<lparr>sy_server = st, sy_conns = [demo_conn ph False], sy_queue = q,
      sy_taken = \<lambda>ch. 0, sy_answered = n, sy_out = outs\<rparr>"
  have shared: "sv_ws_shared demo_start = ws_new"
    by (simp add: demo_start_def server_start_def server_new_def emit_def)
  have start: "sys_reach (sys_start demo_start)" unfolding demo_start_def by (rule sys_reach.start)
  have "sys_step (sys_start demo_start)
      ((sys_start demo_start)\<lparr>sy_server := ?st, sy_conns := [demo_conn Serving False]\<rparr>)"
    using sys_step.connect [of "sys_start demo_start" "demo_conn Serving False" ?w]
    by (simp add: sys_start_def sys_shared_def shared conn_new_def ws_next_client_id_def demo_conn_def ws_new_def)
  from sys_reach.step [OF start this]
  have "sys_reach (?sy ?st Serving [] (\<lambda>cid. 0) [])"
    by (simp add: sys_start_def)
  then have "sys_reach (?sy ?st (Awaiting False) [Wc_request 1 demo_create] (\<lambda>cid. 0) [])"
    using sys_reach_frame [of "?sy ?st Serving [] (\<lambda>cid. 0) []" "demo_conn Serving False"
        "\<lambda>t. Inr demo_create" "Frame_text []"]
    by (simp add: demo_conn_def conn_frame_def conn_text_def demo_create_def detach_first_def
        is_attach_req_def after_conn_def sys_shared_def)
  moreover obtain st where st: "handle_ws_command demo_env (Wc_request 1 demo_create) ?st = Inr st"
      "sv_ws_shared st = ?w" "sv_ws_sent st = []" "sv_ws_replies st = [(1, Created 7)]" "sv_sessions st = [(7, s)]"
    using s by (simp add: handle_ws_command_def ws_request_def handle_request_def demo_create_def handle_create_def
        demo_env_def demo_start_def server_start_def server_new_def emit_def open_fds_def fd_list_def new_fds_def
        get_session_def sm_get_def sm_add_def)
  ultimately have "sys_reach (?sy st (Awaiting False) [] (\<lambda>cid. 0) [])"
    using sys_reach.step [OF _ sys_step.command [of "?sy ?st (Awaiting False) [Wc_request 1 demo_create] (\<lambda>cid. 0) []"]]
    by fastforce
  then have "sys_reach (?sy st Serving [] ((\<lambda>cid. 0)(1 := 1)) [(1, Out_response (Created 7))])"
    using sys_reach_reply [of "?sy st (Awaiting False) [] (\<lambda>cid. 0) []" "demo_conn (Awaiting False) False" "Created 7"] st
    by (simp add: demo_conn_def is_waiting_def recv_reply_def sent_on_def conn_reply_def Let_def after_conn_def
        sys_shared_def shared_unchanged)
  with st s show ?thesis by blast
qed


text \<open>The client has attached the session and streams its output.\<close>

definition demo_streaming :: "ws_system \<Rightarrow> bool" where
  "demo_streaming sy \<longleftrightarrow>
     sys_reach sy \<and> sy_conns sy = [demo_conn Serving True] \<and> sy_queue sy = [] \<and> sy_taken sy = (\<lambda>ch. 0) \<and>
     sv_ws_sent (sy_server sy) = [] \<and> sys_shared sy = \<lparr>subscribers = [(7, [\<lparr>sub_tx = 0, sub_client_id = 1\<rparr>])],
       next_client_id = 2, client_sessions = [(1, 7)], next_channel = 1\<rparr> \<and>
     (\<exists>s. sv_sessions (sy_server sy) = [(7, s)] \<and> s_child_pid s = 100)"

lemma demo_viewer_attached: "\<exists>sy. demo_streaming sy"
proof -
  let ?sy = "\<lambda>st c q n outs. \<lparr>sy_server = st, sy_conns = [c], sy_queue = q,
      sy_taken = \<lambda>ch. 0, sy_answered = n, sy_out = outs\<rparr>"
  let ?n = "(\<lambda>cid. 0)(1 := 1)" and ?outs = "[(1, Out_response (Created 7))]"
  obtain st s where r: "sys_reach (?sy st (demo_conn Serving False) [] ?n ?outs)"
    and st: "sv_ws_shared st = ws_new\<lparr>next_client_id := 2\<rparr>" "sv_ws_sent st = []"
      "sv_ws_replies st = [(1, Created 7)]" "sv_sessions st = [(7, s)]"
    and s: "s_state s = Active" "s_child_pid s = 100" "ring_holds s []"
    using demo_viewer_created by blast
  have r: "sys_reach (?sy st (demo_conn (Awaiting True) False) [Wc_request 1 (Req_Attach 7)] ?n ?outs)"
    using sys_reach_frame [OF r, of "demo_conn Serving False" "\<lambda>t. Inr (Req_Attach 7)" "Frame_text []"] st(1)
    by (simp add: demo_conn_def conn_frame_def conn_text_def detach_first_def is_attach_req_def after_conn_def
        sys_shared_def shared_unchanged)
  have "shm_dump (s_shared_ring s) (s_ring_mem s) = Inr (last_n (sr_capacity (s_shared_ring s)) [])"
    using s(3) unfolding ring_holds_def by (rule shm_dump_rep)
  moreover have "shm_dump (s_shared_ring s) (s_ring_mem s) = Inr [] \<Longrightarrow>
      \<exists>st' s' name snap. handle_ws_attach demo_env 1 7 st = Inr (AttachReady 7 (ws_cols (s_winsize s)) (ws_rows (s_winsize s)) 100 name snap, st') \<and>
        sv_sessions st' = [(7, s')] \<and> s_child_pid s' = 100 \<and> ws_part st' = ws_part st"
    using s st by (simp add: handle_ws_attach_def get_session_def sm_get_def Let_def is_child_alive_def
        demo_env_def put_session_def sm_put_def emit_def ws_kept)
  ultimately obtain st1 s' name snap where st1: "handle_ws_attach demo_env 1 7 st =
        Inr (AttachReady 7 (ws_cols (s_winsize s)) (ws_rows (s_winsize s)) 100 name snap, st1)"
      "sv_sessions st1 = [(7, s')]" "s_child_pid s' = 100" "ws_part st1 = ws_part st"
    by auto
  define resp where "resp = AttachReady 7 (ws_cols (s_winsize s)) (ws_rows (s_winsize s)) 100 name snap"
  define st' where "st' = st1\<lparr>sv_ws_replies := [(1, Created 7), (1, resp)]\<rparr>"
  have st': "handle_ws_command demo_env (Wc_request 1 (Req_Attach 7)) st = Inr st'"
      "sv_ws_replies st' = [(1, Created 7), (1, resp)]"
      "sv_sessions st' = [(7, s')]" "s_child_pid s' = 100" "sv_ws_shared st' = ws_new\<lparr>next_client_id := 2\<rparr>"
      "sv_ws_sent st' = []"
    using st st1 by (simp_all add: handle_ws_command_def ws_request_def st'_def resp_def ws_part_def)
  have "sys_reach (?sy st' (demo_conn (Awaiting True) False) [] ?n ?outs)"
    using sys_reach.step [OF r sys_step.command] st'(1) by fastforce
  from sys_reach_reply [OF this, of "demo_conn (Awaiting True) False" resp] st'(2-)
  have "sys_reach (?sy (st'\<lparr>sv_ws_shared := \<lparr>subscribers = [(7, [\<lparr>sub_tx = 0, sub_client_id = 1\<rparr>])],
       next_client_id = 2, client_sessions = [(1, 7)], next_channel = 1\<rparr>\<rparr>)
     (demo_conn Serving True) [] (?n(1 := 2)) (?outs @ [(1, Out_response resp)]))"
    by (simp add: demo_conn_def is_waiting_def recv_reply_def sent_on_def conn_reply_def Let_def after_conn_def
        sys_shared_def resp_def numeral_2_eq_2 ws_subscribe_def subs_of_def ws_new_def)
  with st' show ?thesis
    unfolding demo_streaming_def by (fastforce simp: sys_shared_def)
qed


lemma demo_viewer_ended:
  "\<exists>sy. sys_reach sy \<and> sy_conns sy = [demo_conn Serving True] \<and> recv_event sy 0 = Some (Some Session_ended)"
proof -
  obtain sy where sy: "demo_streaming sy" using demo_viewer_attached by blast
  then obtain s where s: "sv_sessions (sy_server sy) = [(7, s)]" unfolding demo_streaming_def by blast
  let ?e = "demo_env\<lparr>e_alive := (\<lambda>p. False)\<rparr>"
  let ?sy = "sy\<lparr>sy_server := reap_sessions ?e (sy_server sy)\<rparr>"
  have "sys_reach ?sy"
    using sy sys_reach.step [OF _ sys_step.reap] unfolding demo_streaming_def by blast
  moreover have "sv_ws_sent (reap_sessions ?e (sy_server sy)) = [(0, Session_ended)]"
    using sy s by (simp add: demo_streaming_def reap_sessions_def reap_dead_def sm_remove_def is_child_alive_def
        sys_shared_def notify_ended_def emit_def ws_notify_session_ended_def split: prod.splits)
  ultimately show ?thesis
    using sy unfolding demo_streaming_def
    by (intro exI [of _ ?sy]) (simp add: recv_event_def sent_on_def)
qed

subsection \<open>Properties\<close>

text \<open>
  C17: an attached viewer is never forgotten. In every interleaving of the main loop with the
  connections, a connection that has attached a session has a channel, and either its
  subscription is still in place, so that it gets all further output, or the notice that the
  session ended is on the channel and not read yet.
\<close>

theorem viewer_subscribed_or_told:
  assumes reach: "sys_reach sy" and c: "c \<in> set (sy_conns sy)" "wc_phase c \<noteq> Closed"
    and sid: "wc_attached c = Some sid"
  shows "\<exists>ch. wc_rx c = Some ch \<and>
     (\<lparr>sub_tx = ch, sub_client_id = wc_id c\<rparr> \<in> set (subs_of (sys_shared sy) sid) \<or>
      Session_ended \<in> set (drop (sy_taken sy ch) (sent_on ch (sv_ws_sent (sy_server sy)))))"
proof -
  have ok: "conn_ok (sys_shared sy) (sv_ws_sent (sy_server sy)) (sy_taken sy) c"
    using sys_reach_inv [OF reach] c unfolding sys_inv_def subs_inv_def by blast
  then obtain ch where ch: "wc_rx c = Some ch" using sid by (auto simp: conn_ok_def)
  have "set xs = set (take n xs) \<union> set (drop n xs)" for n and xs :: "ws_event list"
    by (metis append_take_drop_id set_append)
  with ok ch sid show ?thesis unfolding conn_ok_def by blast
qed

theorem viewer_subscribed_or_told_witness:
  "\<exists>sy. sys_reach sy \<and> sy_conns sy = [demo_conn Serving True] \<and>
     (\<lparr>sub_tx = 0, sub_client_id = 1\<rparr> \<in> set (subs_of (sys_shared sy) 7) \<or>
      Session_ended \<in> set (drop (sy_taken sy 0) (sent_on 0 (sv_ws_sent (sy_server sy)))))"
proof -
  obtain sy where sy: "sys_reach sy" "sy_conns sy = [demo_conn Serving True]"
    using demo_viewer_ended by blast
  from viewer_subscribed_or_told [OF sy(1), of "demo_conn Serving True" 7] sy show ?thesis
    by (auto simp: demo_conn_def)
qed

text \<open>
  C23: the reaction to the events of a subscription never fails: whatever an attached connection
  receives, its channel is not closed under it and the session id it unwraps is there, so the
  task does not panic; on the end of a session it leaves the streaming mode without closing the
  connection.
\<close>

theorem connection_task_never_panics:
  assumes reach: "sys_reach sy" and c: "c \<in> set (sy_conns sy)" "wc_phase c = Serving"
    and rx: "wc_rx c = Some ch" "recv_event sy ch = Some ev"
  shows "ev \<noteq> None \<and>
     (\<exists>c' w' cmds outs. conn_event ok ev c (sys_shared sy) = Inr (c', w', cmds, outs) \<and>
        (ev = Some Session_ended \<longrightarrow> wc_phase c' = Serving \<and> wc_attached c' = None \<and> wc_rx c' = None))"
proof -
  have "wc_phase c \<noteq> Closed" using c(2) by simp
  from recv_event_attached [OF sys_reach_inv [OF reach] c(1) this rx(1)] rx(2) c(2) show ?thesis
    by (cases ev) (auto simp: conn_event_def conn_close_def split: ws_event.splits)
qed

theorem connection_task_never_panics_witness:
  "\<exists>sy c' w' outs. sys_reach sy \<and>
     conn_event True (Some Session_ended) (demo_conn Serving True) (sys_shared sy) = Inr (c', w', [], outs) \<and>
     wc_attached c' = None"
proof -
  obtain sy where sy: "sys_reach sy" "sy_conns sy = [demo_conn Serving True]"
      "recv_event sy 0 = Some (Some Session_ended)"
    using demo_viewer_ended by blast
  from connection_task_never_panics [OF sy(1), of "demo_conn Serving True" 0 "Some Session_ended" True] sy
  show ?thesis by (auto simp: demo_conn_def conn_event_def)
qed



text \<open>
  C24: the release on disconnect never happens. When the main loop handles the announcement that
  a WebSocket client is gone, the connection has already removed itself from the table of client
  sessions, so the handler changes nothing: the client stays counted and the session is not
  given back to its previous owner.
\<close>

theorem disconnect_release_unreachable:
  assumes reach: "sys_reach sy" and q: "sy_queue sy = Wc_disconnected cid # rest"
  shows "handle_ws_command e (Wc_disconnected cid) (sy_server sy) = Inr (sy_server sy)"
proof -
  have inv: "sys_inv sy" using reach by (rule sys_reach_inv)
  have "\<exists>c \<in> set (sy_conns sy). wc_id c = cid \<and> wc_phase c = Closed"
    using inv q by (simp add: sys_inv_def msgs_inv_def)
  then obtain c where c: "c \<in> set (sy_conns sy)" "wc_id c = cid" "wc_phase c = Closed" by blast
  have "map_of (client_sessions (sys_shared sy)) cid = None"
  proof (rule ccontr)
    assume "map_of (client_sessions (sys_shared sy)) cid \<noteq> None"
    moreover have subs: "subs_inv (sys_shared sy) (sv_ws_sent (sy_server sy)) (sy_taken sy) (set (sy_conns sy))"
      using inv by (simp add: sys_inv_def)
    ultimately obtain d where "d \<in> set (sy_conns sy)" "wc_id d = cid" "wc_phase d \<noteq> Closed"
      unfolding subs_inv_def sessions_owned_def by blast
    with subs_invD(6) [OF subs c(1), of d] c show False by auto
  qed
  then show ?thesis
    by (simp add: handle_ws_command_def handle_ws_client_disconnect_def sys_shared_def)
qed

theorem disconnect_release_unreachable_witness:
  "\<exists>sy s. sys_reach sy \<and> sv_sessions (sy_server sy) = [(7, s)] \<and>
     handle_ws_command demo_env (Wc_disconnected 1) (sy_server sy) = Inr (sy_server sy)"
proof -
  obtain sy s where sy: "demo_streaming sy" "sv_sessions (sy_server sy) = [(7, s)]"
    using demo_viewer_attached unfolding demo_streaming_def by blast
  let ?c = "demo_conn Serving True"
  let ?sy = "after_conn 0 (conn_frame (\<lambda>t. Inr Req_Ping) Frame_close ?c (sys_shared sy)) sy"
  have sy': "sys_reach ?sy"
    using sy(1) by (intro sys_reach_frame) (simp_all add: demo_streaming_def demo_conn_def)
  have "sy_queue ?sy = [Wc_disconnected 1]" "sv_sessions (sy_server ?sy) = [(7, s)]"
    using sy by (simp_all add: demo_streaming_def demo_conn_def conn_frame_def conn_close_def after_conn_def)
  with disconnect_release_unreachable [OF sy'] sy' show ?thesis by blast
qed

end
