(* ===== verification/Pty.thy ===== *)
theory Pty
  imports Server_Props
begin

section \<open>Creating a PTY and its shell (\<open>pty.rs\<close>)\<close>

text \<open>
  \<open>create_pty\<close> opens a PTY, prepares a command, forks and lets the child set itself up before
  it executes the shell. The model follows the descriptors through it, with their close-on-exec
  flag: \<open>openpty\<close> makes descriptors without the flag, the clones that the Rust library makes
  have it. What the operating system answers is a record.
\<close>

subsection \<open>Terminal settings\<close>

datatype tty_flag =
    ICRNL | IXON | IXANY | IMAXBEL | BRKINT | IUTF8
  | OPOST | ONLCR
  | CREAD | CS8 | HUPCL
  | ICANON | ISIG | IEXTEN | ECHO | ECHOE | ECHOK | ECHOKE | ECHOCTL

datatype control_char =
    VEOF | VEOL | VEOL2 | VERASE | VWERASE | VKILL | VREPRINT | VINTR | VQUIT | VSUSP
  | VSTART | VSTOP | VLNEXT | VDISCARD | VMIN | VTIME | VDSUSP | VSTATUS

record termios =
  c_iflag :: "tty_flag set"
  c_oflag :: "tty_flag set"
  c_cflag :: "tty_flag set"
  c_lflag :: "tty_flag set"
  c_cc :: "control_char \<Rightarrow> u8"

definition zeroed_termios :: termios where
  "zeroed_termios = \<lparr>c_iflag = {}, c_oflag = {}, c_cflag = {}, c_lflag = {}, c_cc = (\<lambda>i. 0)\<rparr>"

text \<open>The crate builds on macOS only, where both conditional blocks are taken.\<close>

definition create_termios :: termios where
  "create_termios =
     (let term = zeroed_termios
        \<lparr>c_iflag := {ICRNL, IXON, IXANY, IMAXBEL, BRKINT},
         c_oflag := {OPOST, ONLCR},
         c_cflag := {CREAD, CS8, HUPCL},
         c_lflag := {ICANON, ISIG, IEXTEN, ECHO, ECHOE, ECHOK, ECHOKE, ECHOCTL}\<rparr>;
          term = term\<lparr>c_iflag := c_iflag term \<union> {IUTF8}\<rparr>
      in term\<lparr>c_cc := (c_cc term)
           (VEOF := 4, VEOL := 255, VEOL2 := 255, VERASE := 0x7f, VWERASE := 23, VKILL := 21,
            VREPRINT := 18, VINTR := 3, VQUIT := 0x1c, VSUSP := 26, VSTART := 17, VSTOP := 19,
            VLNEXT := 22, VDISCARD := 15, VMIN := 1, VTIME := 0, VDSUSP := 25, VSTATUS := 20)\<rparr>)"

subsection \<open>Descriptors and the operating system\<close>

record fd_table =
  ft_open :: "fd set"
  ft_cloexec :: "fd set"

definition ft_add :: "bool \<Rightarrow> fd \<Rightarrow> fd_table \<Rightarrow> fd_table" where
  "ft_add cloexec fd t =
     t\<lparr>ft_open := insert fd (ft_open t),
       ft_cloexec := (if cloexec then insert fd (ft_cloexec t) else ft_cloexec t - {fd})\<rparr>"

definition ft_close :: "fd \<Rightarrow> fd_table \<Rightarrow> fd_table" where
  "ft_close fd t = t\<lparr>ft_open := ft_open t - {fd}, ft_cloexec := ft_cloexec t - {fd}\<rparr>"

text \<open>The command as \<open>std::process::Command\<close> holds it when \<open>spawn\<close> is called.\<close>

record command =
  cmd_program :: string
  cmd_args :: "string list"
  cmd_stdin :: fd
  cmd_stdout :: fd
  cmd_stderr :: fd
  cmd_env :: "(string \<times> string) list"
  cmd_dir :: "string option"

text \<open>
  \<open>po_alloc\<close> is the descriptor the kernel gives out when \<open>openpty\<close> or a clone asks for one;
  \<open>None\<close> when there is none left.
\<close>

record pty_os =
  po_alloc :: "fd set \<Rightarrow> fd option"
  po_openpty_ok :: "termios \<Rightarrow> winsize \<Rightarrow> bool"
  po_clone_ok :: "nat \<Rightarrow> bool"
  po_shell_var :: "string option"
  po_exists :: "string \<Rightarrow> bool"
  po_is_dir :: "string \<Rightarrow> bool"
  po_fork :: "pid option"
  po_setsid :: bool
  po_set_ctty :: bool
  po_exec :: "command \<Rightarrow> bool"
  po_ptsname :: "fd \<Rightarrow> string option"

definition openpty :: "pty_os \<Rightarrow> termios \<Rightarrow> winsize \<Rightarrow> fd_table \<Rightarrow> (fd \<times> fd \<times> fd_table) option" where
  "openpty os term ws t =
     (if \<not> po_openpty_ok os term ws then None
      else case po_alloc os (ft_open t) of
        None \<Rightarrow> None
      | Some master \<Rightarrow>
          (case po_alloc os (insert master (ft_open t)) of
             None \<Rightarrow> None
           | Some child \<Rightarrow> Some (master, child, ft_add False child (ft_add False master t))))"

text \<open>\<open>OwnedFd::try_clone\<close>: the duplicate is close-on-exec.\<close>

definition try_clone :: "pty_os \<Rightarrow> nat \<Rightarrow> fd_table \<Rightarrow> (fd \<times> fd_table) option" where
  "try_clone os i t =
     (if \<not> po_clone_ok os i then None
      else case po_alloc os (ft_open t) of None \<Rightarrow> None | Some fd \<Rightarrow> Some (fd, ft_add True fd t))"

subsection \<open>The shell's program, environment and directory\<close>

definition pty_shell_program :: "pty_os \<Rightarrow> string \<Rightarrow> string" where
  "pty_shell_program os shell =
     (if shell = [] then (case po_shell_var os of None \<Rightarrow> ''/bin/zsh'' | Some s \<Rightarrow> s) else shell)"

fun digits :: "nat \<Rightarrow> string" where
  "digits n = (if n < 10 then [hex_digit n] else digits (n div 10) @ [hex_digit (n mod 10)])"

declare digits.simps [simp del]

text \<open>\<open>Command::env\<close> sets one variable; a later call for the same name replaces it.\<close>

definition fixed_env :: "(string \<times> string) list" where
  "fixed_env = [(''TERM'', ''xterm-256color''), (''COLORTERM'', ''truecolor''),
     (''LC_CTYPE'', ''UTF-8''), (''LANG'', ''en_US.UTF-8''),
     (''ETERM_SHELL_INTEGRATION'', ''1''), (''TERM_PROGRAM'', ''ETerm'')]"

definition pty_env :: "u32 option \<Rightarrow> (string \<times> string) list option \<Rightarrow> (string \<times> string) list" where
  "pty_env terminal_id envs =
     (let env = fold (\<lambda>(k, v). AList.update k v) fixed_env [];
          env = (case terminal_id of
                   None \<Rightarrow> env
                 | Some tid \<Rightarrow>
                     AList.update ''ETERM_SESSION_ID'' (digits (unat tid))
                       (AList.update ''ETERM_TERMINAL_ID'' (digits (unat tid)) env))
      in case envs of None \<Rightarrow> env | Some extra \<Rightarrow> fold (\<lambda>(k, v). AList.update k v) extra env)"

definition is_absolute :: "string \<Rightarrow> bool" where
  "is_absolute dir = (case dir of [] \<Rightarrow> False | c # cs \<Rightarrow> c = CHR ''/'')"

definition pty_dir :: "pty_os \<Rightarrow> string option \<Rightarrow> string option" where
  "pty_dir os working_dir =
     (case working_dir of
        None \<Rightarrow> None
      | Some dir \<Rightarrow> if is_absolute dir \<and> po_exists os dir \<and> po_is_dir os dir then Some dir else None)"

subsection \<open>The child between \<open>fork\<close> and \<open>exec\<close>\<close>

text \<open>
  The library puts the three standard descriptors in place, then runs the \<open>pre_exec\<close> closure:
  a new session, the controlling terminal, and the two PTY descriptors are closed; signals go
  back to their default action. \<open>exec\<close> drops the close-on-exec descriptors.
\<close>

definition pre_exec :: "pty_os \<Rightarrow> fd \<Rightarrow> fd \<Rightarrow> fd_table \<Rightarrow> fd_table option" where
  "pre_exec os child master t =
     (if \<not> po_setsid os then None
      else if \<not> po_set_ctty os then None
      else Some (ft_close master (ft_close child t)))"

definition exec_fds :: "fd_table \<Rightarrow> fd set" where
  "exec_fds t = ft_open t - ft_cloexec t"

definition spawn_child :: "pty_os \<Rightarrow> fd \<Rightarrow> fd \<Rightarrow> command \<Rightarrow> fd_table \<Rightarrow> (pid \<times> fd set) option" where
  "spawn_child os child master cmd t =
     (case po_fork os of
        None \<Rightarrow> None
      | Some pid \<Rightarrow>
          (case pre_exec os child master (ft_add False 2 (ft_add False 1 (ft_add False 0 t))) of
             None \<Rightarrow> None
           | Some t' \<Rightarrow> if po_exec os cmd then Some (pid, exec_fds t') else None))"

definition get_ptsname :: "pty_os \<Rightarrow> fd \<Rightarrow> string" where
  "get_ptsname os fd = (case po_ptsname os fd of None \<Rightarrow> [] | Some name \<Rightarrow> name)"

subsection \<open>\<open>create_pty\<close>\<close>

text \<open>
  The result, the descriptors of the daemon afterwards, and those of the running shell. On the
  early returns of the two clones only what has an owner is closed.
\<close>

record pty_pair =
  pp_master_fd :: fd
  pp_child_pid :: pid
  pp_ptsname :: string

definition create_pty ::
  "pty_os \<Rightarrow> fd_table \<Rightarrow> string \<Rightarrow> u16 \<Rightarrow> u16 \<Rightarrow> string option \<Rightarrow> u32 option \<Rightarrow>
   (string \<times> string) list option \<Rightarrow> pty_pair option \<times> fd_table \<times> fd set" where
  "create_pty os t shell cols rows working_dir terminal_id envs =
     (case openpty os create_termios \<lparr>ws_cols = cols, ws_rows = rows\<rparr> t of
        None \<Rightarrow> (None, t, {})
      | Some (master, child, t) \<Rightarrow>
          (case try_clone os 0 t of
             None \<Rightarrow> (None, ft_close child t, {})
           | Some (stdin, t) \<Rightarrow>
               (case try_clone os 1 t of
                  None \<Rightarrow> (None, ft_close stdin (ft_close child t), {})
                | Some (stderr, t) \<Rightarrow>
                    let cmd = \<lparr>cmd_program = pty_shell_program os shell, cmd_args = [''--login''],
                               cmd_stdin = stdin, cmd_stdout = child, cmd_stderr = stderr,
                               cmd_env = pty_env terminal_id envs, cmd_dir = pty_dir os working_dir\<rparr>;
                        builder_drop = (\<lambda>t. ft_close stderr (ft_close stdin (ft_close child t)))
                    in (case spawn_child os child master cmd t of
                          None \<Rightarrow> (None, builder_drop (ft_close master t), {})
                        | Some (pid, shell_fds) \<Rightarrow>
                            (Some \<lparr>pp_master_fd = master, pp_child_pid = pid,
                                   pp_ptsname = get_ptsname os master\<rparr>,
                             builder_drop t, shell_fds)))))"

text \<open>\<open>Drop for PtyPair\<close>, which the server forgets once the session owns the descriptor.\<close>

definition pty_pair_drop :: "pty_pair \<Rightarrow> sys_call list" where
  "pty_pair_drop p = [Fd_close (pp_master_fd p)]"

text \<open>\<open>set_winsize\<close>: whether the \<open>ioctl\<close> took the size.\<close>

definition set_winsize :: "(fd \<Rightarrow> winsize \<Rightarrow> int) \<Rightarrow> fd \<Rightarrow> u16 \<Rightarrow> u16 \<Rightarrow> io_error + unit" where
  "set_winsize ioctl fd cols rows =
     (if ioctl fd \<lparr>ws_cols = cols, ws_rows = rows\<rparr> < 0 then Inl Os_error else Inr ())"


subsection \<open>Where descriptors come from\<close>

text \<open>What everything above needs of the kernel: a descriptor it gives out was free.\<close>

locale fd_source =
  fixes alloc :: "fd set \<Rightarrow> fd option"
  assumes alloc_fresh: "alloc fds = Some fd \<Longrightarrow> fd \<notin> fds \<and> 0 \<le> fd"
begin

lemma openpty_fresh:
  assumes "po_alloc os = alloc" "openpty os term ws t = Some (m, c, t')"
  shows "m \<notin> ft_open t" "c \<notin> ft_open t" "m \<noteq> c" "0 \<le> m" "0 \<le> c"
    and "t' = ft_add False c (ft_add False m t)"
  using assms alloc_fresh by (fastforce simp: openpty_def split: option.splits if_splits)+

lemma try_clone_fresh:
  assumes "po_alloc os = alloc" "try_clone os i t = Some (fd, t')"
  shows "fd \<notin> ft_open t" "0 \<le> fd" "t' = ft_add True fd t"
  using assms alloc_fresh by (fastforce simp: try_clone_def split: option.splits if_splits)+

text \<open>
  When every step succeeds: what the parts are, and the tables of the daemon and of the shell.
\<close>

lemma create_pty_success:
  assumes alloc: "po_alloc os = alloc" and sub: "ft_cloexec t \<subseteq> ft_open t" and std: "{0, 1, 2} \<subseteq> ft_open t"
    and run: "create_pty os t shell cols rows dir tid envs = (Some p, t', fds)"
  shows "pp_master_fd p \<notin> ft_open t" "0 \<le> pp_master_fd p"
    and "ft_open t' = insert (pp_master_fd p) (ft_open t)" "ft_cloexec t' = ft_cloexec t"
    and "fds = {0, 1, 2} \<union> (ft_open t - ft_cloexec t)"
proof -
  from run obtain m c t1 i t2 e t3 where o: "openpty os create_termios \<lparr>ws_cols = cols, ws_rows = rows\<rparr> t = Some (m, c, t1)"
    and i: "try_clone os 0 t1 = Some (i, t2)" and e: "try_clone os 1 t2 = Some (e, t3)"
    and p: "pp_master_fd p = m" and t': "t' = ft_close e (ft_close i (ft_close c t3))"
    and fds: "fds = exec_fds (ft_close m (ft_close c (ft_add False 2 (ft_add False 1 (ft_add False 0 t3)))))"
    by (auto simp: create_pty_def Let_def spawn_child_def pre_exec_def split: option.splits if_splits)
  note O = openpty_fresh [OF alloc o] and I = try_clone_fresh [OF alloc i] and E = try_clone_fresh [OF alloc e]
  have fresh: "m \<notin> ft_open t" "c \<notin> ft_open t" "m \<noteq> c" "i \<notin> ft_open t" "i \<noteq> m" "i \<noteq> c"
      "e \<notin> ft_open t" "e \<noteq> m" "e \<noteq> c" "e \<noteq> i"
    using O I E by (auto simp: ft_add_def)
  have t3: "ft_open t3 = ft_open t \<union> {m, c, i, e}" "ft_cloexec t3 = ft_cloexec t \<union> {i, e}"
    using O(6) I(3) E(3) fresh sub by (auto simp: ft_add_def)
  show "pp_master_fd p \<notin> ft_open t" "0 \<le> pp_master_fd p" using O p by simp_all
  show "ft_open t' = insert (pp_master_fd p) (ft_open t)" "ft_cloexec t' = ft_cloexec t"
    using t3 fresh sub p unfolding t' ft_close_def by auto
  have "m \<notin> {0, 1, 2}" "c \<notin> {0, 1, 2}" "i \<notin> {0, 1, 2}" "e \<notin> {0, 1, 2}" using fresh std by auto
  then show "fds = {0, 1, 2} \<union> (ft_open t - ft_cloexec t)"
    using t3 fresh std unfolding fds exec_fds_def ft_close_def ft_add_def by auto
qed

end

text \<open>POSIX: the lowest number that is free, below the limit of the process.\<close>

definition lowest_fd :: "nat \<Rightarrow> fd set \<Rightarrow> fd option" where
  "lowest_fd limit fds = List.find (\<lambda>fd. fd \<notin> fds) (map int [0..<limit])"

interpretation posix: fd_source "lowest_fd limit" for limit
  by unfold_locales (auto simp: lowest_fd_def find_Some_iff)

subsection \<open>Properties\<close>

text \<open>The two clones of the child's descriptor, in the table that \<open>openpty\<close> left.\<close>

definition clones_fail :: "pty_os \<Rightarrow> fd_table \<Rightarrow> bool" where
  "clones_fail os t =
     (case try_clone os 0 t of None \<Rightarrow> True | Some (fd, t') \<Rightarrow> try_clone os 1 t' = None)"

text \<open>
  C32: what \<open>create_pty\<close> leaves open. On success exactly the master is new; when \<open>openpty\<close>, the
  fork, the child's preparation or the execution of the shell fails nothing is; but when a clone
  of the child's descriptor fails, the master stays open and nobody owns it.
\<close>

theorem create_pty_descriptors:
  assumes alloc: "po_alloc os = lowest_fd limit"
    and t: "ft_cloexec t \<subseteq> ft_open t" "{0, 1, 2} \<subseteq> ft_open t"
    and run: "create_pty os t shell cols rows dir tid envs = (r, t', fds)"
  shows "case r of
      Some p \<Rightarrow> pp_master_fd p \<notin> ft_open t \<and> ft_open t' = insert (pp_master_fd p) (ft_open t)
    | None \<Rightarrow>
        (case openpty os create_termios \<lparr>ws_cols = cols, ws_rows = rows\<rparr> t of
           None \<Rightarrow> t' = t
         | Some (m, c, t1) \<Rightarrow>
             if clones_fail os t1 then m \<notin> ft_open t \<and> ft_open t' = insert m (ft_open t)
             else ft_open t' = ft_open t)"
proof (cases r)
  case (Some p)
  with posix.create_pty_success [OF alloc t] run show ?thesis by simp
next
  case None
  show ?thesis
  proof (cases "openpty os create_termios \<lparr>ws_cols = cols, ws_rows = rows\<rparr> t")
    case o: None
    with run None show ?thesis by (simp add: create_pty_def)
  next
    case (Some q)
    then obtain m c t1 where o: "openpty os create_termios \<lparr>ws_cols = cols, ws_rows = rows\<rparr> t = Some (m, c, t1)"
      by (cases q) auto
    note O = posix.openpty_fresh [OF alloc o]
    have t1: "ft_open t1 = ft_open t \<union> {m, c}" using O(6) by (auto simp: ft_add_def)
    show ?thesis
    proof (cases "try_clone os 0 t1")
      case i: None
      with run None o t1 O(1-3) show ?thesis
        by (auto simp: create_pty_def clones_fail_def ft_close_def)
    next
      case (Some q)
      then obtain i t2 where i: "try_clone os 0 t1 = Some (i, t2)" by (cases q) auto
      note I = posix.try_clone_fresh [OF alloc i]
      have t2: "ft_open t2 = ft_open t \<union> {m, c, i}" using I(3) t1 by (auto simp: ft_add_def)
      show ?thesis
      proof (cases "try_clone os 1 t2")
        case e: None
        with run None o i t1 t2 O(1-3) I(1) show ?thesis
          by (auto simp: create_pty_def clones_fail_def ft_close_def)
      next
        case (Some q)
        then obtain e t3 where e: "try_clone os 1 t2 = Some (e, t3)" by (cases q) auto
        note E = posix.try_clone_fresh [OF alloc e]
        have "ft_open t3 = ft_open t \<union> {m, c, i, e}" using E(3) t2 by (auto simp: ft_add_def)
        moreover have "t' = ft_close e (ft_close i (ft_close c (ft_close m t3)))"
          using run None o i e by (simp add: create_pty_def Let_def split: option.splits prod.splits)
        ultimately have "ft_open t' = ft_open t"
          using t1 t2 O(1-3) I(1) E(1) unfolding ft_close_def by auto
        moreover have "\<not> clones_fail os t1" using i e by (simp add: clones_fail_def)
        ultimately show ?thesis using None o by simp
      qed
    qed
  qed
qed

text \<open>A kernel for the examples: 16 descriptors, of which the first seven are taken.\<close>

definition tty_os :: pty_os where
  "tty_os = \<lparr>po_alloc = lowest_fd 16, po_openpty_ok = (\<lambda>term ws. True), po_clone_ok = (\<lambda>i. True),
     po_shell_var = Some ''/bin/bash'', po_exists = (\<lambda>d. True), po_is_dir = (\<lambda>d. True), po_fork = Some 100,
     po_setsid = True, po_set_ctty = True, po_exec = (\<lambda>cmd. True), po_ptsname = (\<lambda>fd. Some ''/dev/ttys1'')\<rparr>"

definition tty_table :: fd_table where
  "tty_table = \<lparr>ft_open = {0, 1, 2, 3, 4, 5, 6}, ft_cloexec = {3, 4}\<rparr>"

lemma lowest_fd_demo:
  "lowest_fd 16 {0, 1, 2, 3, 4, 5, 6} = Some 7" "lowest_fd 16 {7, 0, 1, 2, 3, 4, 5, 6} = Some 8"
  "lowest_fd 16 {8, 7, 0, 1, 2, 3, 4, 5, 6} = Some 9" "lowest_fd 16 {9, 8, 7, 0, 1, 2, 3, 4, 5, 6} = Some 10"
  by (simp_all add: lowest_fd_def upt_rec)

theorem create_pty_descriptors_witness:
  "\<exists>p t' fds t''. create_pty tty_os tty_table [] 80 24 None None None = (Some p, t', fds) \<and>
     ft_open t' = insert (pp_master_fd p) (ft_open tty_table) \<and>
     create_pty (tty_os\<lparr>po_clone_ok := (\<lambda>i. i = 0)\<rparr>) tty_table [] 80 24 None None None = (None, t'', {}) \<and>
     ft_open t'' = insert 7 (ft_open tty_table)"
proof -
  let ?os = "tty_os\<lparr>po_clone_ok := (\<lambda>i. i = 0)\<rparr>"
  have t: "ft_cloexec tty_table \<subseteq> ft_open tty_table" "{0, 1, 2} \<subseteq> ft_open tty_table"
    by (simp_all add: tty_table_def)
  have o: "openpty ?os create_termios ws tty_table = Some (7, 8, ft_add False 8 (ft_add False 7 tty_table))"
      "openpty tty_os create_termios ws tty_table = Some (7, 8, ft_add False 8 (ft_add False 7 tty_table))" for ws
    by (simp_all add: openpty_def tty_os_def tty_table_def lowest_fd_demo)
  have c: "try_clone ?os (Suc 0) t' = None" for t' by (simp add: try_clone_def tty_os_def)
  obtain r t' fds where run: "create_pty tty_os tty_table [] 80 24 None None None = (r, t', fds)"
    by (metis prod_cases3)
  then have "r \<noteq> None"
    unfolding create_pty_def o
    by (auto simp: try_clone_def tty_os_def tty_table_def ft_add_def lowest_fd_demo Let_def
        spawn_child_def pre_exec_def)
  obtain r2 t2 fds2 where run2: "create_pty ?os tty_table [] 80 24 None None None = (r2, t2, fds2)"
    by (metis prod_cases3)
  then have "r2 = None" "fds2 = {}" unfolding create_pty_def o by (auto simp: c split: option.splits)
  have alloc: "po_alloc tty_os = lowest_fd 16" "po_alloc ?os = lowest_fd 16" by (simp_all add: tty_os_def)
  have "clones_fail ?os t1" for t1 by (simp add: clones_fail_def c split: option.split)
  then show ?thesis
    using create_pty_descriptors [OF alloc(1) t run] create_pty_descriptors [OF alloc(2) t run2] run run2
      \<open>r \<noteq> None\<close> \<open>r2 = None\<close> \<open>fds2 = {}\<close> o by auto
qed


text \<open>
  C37: sessions are not isolated from each other. The master of a session is not close-on-exec,
  so the shell of every session created later holds it open, besides its own terminal: it can
  read what the other session prints, and closing the master in the daemon does not hang the
  other session up.
\<close>

theorem later_shell_holds_master:
  assumes alloc: "po_alloc os = lowest_fd limit" "po_alloc os' = lowest_fd limit"
    and t: "ft_cloexec t \<subseteq> ft_open t" "{0, 1, 2} \<subseteq> ft_open t"
    and first: "create_pty os t shell cols rows dir tid envs = (Some p, t', fds)"
    and later: "create_pty os' t' shell' cols' rows' dir' tid' envs' = (Some p', t'', fds')"
  shows "pp_master_fd p \<in> fds' \<and> pp_master_fd p' \<notin> fds' \<and> pp_master_fd p \<notin> fds"
proof -
  note F = posix.create_pty_success [OF alloc(1) t first]
  have t': "ft_cloexec t' \<subseteq> ft_open t'" "{0, 1, 2} \<subseteq> ft_open t'" using F(3,4) t by auto
  note L = posix.create_pty_success [OF alloc(2) t' later]
  have "pp_master_fd p \<notin> ft_cloexec t'" "pp_master_fd p \<in> ft_open t'" using F(1,3,4) t(1) by blast+
  then have "pp_master_fd p \<in> fds'" unfolding L(5) by blast
  moreover have "pp_master_fd p' \<notin> fds'" unfolding L(5) using L(1) t'(2) by blast
  moreover have "pp_master_fd p \<notin> fds" unfolding F(5) using F(1) t(2) by blast
  ultimately show ?thesis by blast
qed

theorem later_shell_holds_master_witness:
  "\<exists>p t' fds p' t'' fds'. create_pty tty_os tty_table [] 80 24 None None None = (Some p, t', fds) \<and>
     create_pty tty_os t' [] 80 24 None None None = (Some p', t'', fds') \<and> pp_master_fd p \<in> fds'"
proof -
  have created: "fst (create_pty tty_os t [] 80 24 None None None) \<noteq> None"
    if free: "\<And>fds. finite fds \<Longrightarrow> card fds < 16 \<Longrightarrow> lowest_fd 16 fds \<noteq> None"
      and fin: "finite (ft_open t)" and few: "card (ft_open t) < 12" for t
  proof -
    have alloc: "po_alloc tty_os = lowest_fd 16" by (simp add: tty_os_def)
    have step: "finite (insert x A) \<and> card (insert x A) \<le> Suc (card A)" if "finite A" for x :: int and A
      using that by (simp add: card_insert_if)
    obtain m where m: "lowest_fd 16 (ft_open t) = Some m" using free [of "ft_open t"] fin few by fastforce
    obtain c where c: "lowest_fd 16 (insert m (ft_open t)) = Some c"
      using free [of "insert m (ft_open t)"] step [OF fin, of m] few by fastforce
    let ?o = "insert c (insert m (ft_open t))"
    have o: "finite ?o" "card ?o \<le> Suc (Suc (card (ft_open t)))"
      using step [OF fin, of m] step [of "insert m (ft_open t)" c] by linarith+
    obtain i where i: "lowest_fd 16 ?o = Some i" using free [of ?o] o few by fastforce
    obtain e where e: "lowest_fd 16 (insert i ?o) = Some e"
      using free [of "insert i ?o"] step [OF o(1), of i] o(2) few by fastforce
    show ?thesis
      using m c i e
      by (simp add: create_pty_def openpty_def try_clone_def tty_os_def ft_add_def Let_def spawn_child_def pre_exec_def)
  qed
  have free: "lowest_fd 16 fds \<noteq> None" if "finite fds" "card fds < 16" for fds
  proof
    assume "lowest_fd 16 fds = None"
    then have "int ` {0..<16} \<subseteq> fds" by (auto simp: lowest_fd_def find_None_iff)
    from card_mono [OF that(1) this] show False using that(2) by (simp add: card_image)
  qed
  have alloc: "po_alloc tty_os = lowest_fd 16" by (simp add: tty_os_def)
  have t: "ft_cloexec tty_table \<subseteq> ft_open tty_table" "{0, 1, 2} \<subseteq> ft_open tty_table"
      "finite (ft_open tty_table)" "card (ft_open tty_table) = 7"
    by (simp_all add: tty_table_def)
  obtain p t' fds where first: "create_pty tty_os tty_table [] 80 24 None None None = (Some p, t', fds)"
    using created [OF free t(3)] t(4) by (cases "create_pty tty_os tty_table [] 80 24 None None None") auto
  have "ft_open t' = insert (pp_master_fd p) (ft_open tty_table)"
    by (rule posix.create_pty_success(3) [OF alloc t(1,2) first])
  then have "finite (ft_open t')" "card (ft_open t') < 12" using t(3,4) by (simp_all add: card_insert_if)
  from created [OF free this] obtain p' t'' fds' where later: "create_pty tty_os t' [] 80 24 None None None = (Some p', t'', fds')"
    by (cases "create_pty tty_os t' [] 80 24 None None None") auto
  from later_shell_holds_master [OF alloc alloc t(1,2) first later] first later show ?thesis by blast
qed

text \<open>
  C39: the environment of a shell. A variable the client supplies wins over what the daemon sets;
  otherwise the two identifiers carry the terminal's number, in decimal, when there is one, and
  the fixed variables have their values; nothing else is set.
\<close>

theorem shell_environment:
  assumes "distinct (map fst extra)"
  shows "map_of (pty_env tid (Some extra)) k =
     (case map_of extra k of
        Some v \<Rightarrow> Some v
      | None \<Rightarrow>
          (case tid of
             Some n \<Rightarrow> if k = ''ETERM_TERMINAL_ID'' \<or> k = ''ETERM_SESSION_ID'' then Some (digits (unat n))
                       else map_of fixed_env k
           | None \<Rightarrow> map_of fixed_env k))"
proof -
  have "distinct (map fst fixed_env)" by (simp add: fixed_env_def)
  then have "map_of (fold (\<lambda>(k, v). AList.update k v) fixed_env []) k = map_of fixed_env k"
    by (simp add: alist.look_fold_ins_distinct split: option.split)
  then show ?thesis
    by (simp add: pty_env_def Let_def alist.look_fold_ins_distinct [OF assms] AList.update_conv' split: option.split)
qed

theorem shell_environment_witness:
  "map_of (pty_env (Some 42) (Some [(''TERM'', ''dumb'')])) ''TERM'' = Some ''dumb'' \<and>
   map_of (pty_env (Some 42) (Some [(''TERM'', ''dumb'')])) ''ETERM_SESSION_ID'' = Some ''42''"
  using shell_environment [of "[(''TERM'', ''dumb'')]" "Some 42"]
  by (simp add: digits.simps hex_digit_def)

subsection \<open>The server on this PTY model\<close>

text \<open>
  The answers of the operating system that the server model takes as inputs, given by a kernel
  that hands out the lowest free descriptor and by \<open>create_pty\<close>.
\<close>

definition posix_pty ::
  "pty_os \<Rightarrow> fd set \<Rightarrow> string \<Rightarrow> u16 \<Rightarrow> u16 \<Rightarrow> string option \<Rightarrow> u32 option \<Rightarrow>
   (string \<times> string) list option \<Rightarrow> (fd \<times> pid \<times> string) option" where
  "posix_pty os fds shell cols rows dir tid envs =
     map_option (\<lambda>p. (pp_master_fd p, pp_child_pid p, pp_ptsname p))
       (fst (create_pty os \<lparr>ft_open = {0, 1, 2} \<union> fds, ft_cloexec = {}\<rparr> shell cols rows dir tid envs))"

definition posix_dup :: "nat \<Rightarrow> fd set \<Rightarrow> fd \<Rightarrow> int" where
  "posix_dup limit fds fd = (case lowest_fd limit fds of None \<Rightarrow> -1 | Some fd' \<Rightarrow> fd')"

definition posix_accept :: "nat \<Rightarrow> fd set \<Rightarrow> accept_result" where
  "posix_accept limit fds = (case lowest_fd limit fds of None \<Rightarrow> Accept_error | Some fd \<Rightarrow> Accepted fd)"

definition posix_env :: "nat \<Rightarrow> pty_os \<Rightarrow> nat \<Rightarrow> env \<Rightarrow> env" where
  "posix_env limit os waiting e =
     e\<lparr>e_dup := posix_dup limit, e_pty := posix_pty os,
       e_accepts := replicate waiting (posix_accept limit) @ [\<lambda>fds. Accept_would_block]\<rparr>"



end
