(* ===== verification/Fd_Passing.thy ===== *)
theory Fd_Passing
  imports Pty
begin

section \<open>Passing descriptors over a socket (\<open>fd_passing.rs\<close>)\<close>

text \<open>
  A descriptor travels as ancillary data of a one-byte message. The model has the message that
  \<open>send_fd\<close> builds, what \<open>recv_fd\<close> makes of the answer of \<open>recvmsg\<close>, and a stream socket as
  the documentation of \<open>SCM_RIGHTS\<close> describes it: bytes in order, the first byte of a message
  carrying a reference to an open file, for which the receiver gets a new descriptor.
\<close>

datatype cmsg_level = SOL_SOCKET | Other_level
datatype cmsg_type = SCM_RIGHTS | Other_type

record cmsg =
  cm_level :: cmsg_level
  cm_type :: cmsg_type
  cm_fd :: fd

record msghdr =
  mh_iov :: bytes
  mh_control :: "cmsg option"

definition rights_msg :: "fd \<Rightarrow> msghdr" where
  "rights_msg fd =
     \<lparr>mh_iov = [0], mh_control = Some \<lparr>cm_level = SOL_SOCKET, cm_type = SCM_RIGHTS, cm_fd = fd\<rparr>\<rparr>"

definition send_fd :: "(fd \<Rightarrow> msghdr \<Rightarrow> int) \<Rightarrow> fd \<Rightarrow> fd \<Rightarrow> io_error + unit" where
  "send_fd sendmsg socket fd = (if sendmsg socket (rights_msg fd) < 0 then Inl Os_error else Inr ())"

text \<open>\<open>recvmsg\<close> returns a count and the first control header, if there is one.\<close>

definition recv_fd :: "int \<times> cmsg option \<Rightarrow> io_error + fd" where
  "recv_fd ans =
     (case ans of (ret, control) \<Rightarrow>
        if ret < 0 then Inl Os_error
        else if ret = 0 then Inl (Unexpected_eof ''peer closed'')
        else (case control of
                None \<Rightarrow> Inl (Invalid_data ''no ancillary data'')
              | Some c \<Rightarrow>
                  if cm_level c \<noteq> SOL_SOCKET \<or> cm_type c \<noteq> SCM_RIGHTS
                  then Inl (Invalid_data ''unexpected cmsg type'')
                  else Inr (cm_fd c)))"

subsection \<open>A stream socket\<close>

text \<open>Open files are numbered; a byte of the stream may carry one.\<close>

type_synonym stream = "(u8 \<times> nat option) list"

definition stream_write :: "bytes \<Rightarrow> stream \<Rightarrow> stream" where
  "stream_write d q = q @ map (\<lambda>b. (b, None)) d"

definition stream_sendmsg :: "(fd \<rightharpoonup> nat) \<Rightarrow> msghdr \<Rightarrow> stream \<Rightarrow> stream option" where
  "stream_sendmsg files m q =
     (case mh_control m of
        None \<Rightarrow> Some (stream_write (mh_iov m) q)
      | Some c \<Rightarrow>
          (case files (cm_fd c) of
             None \<Rightarrow> None
           | Some f \<Rightarrow>
               (case mh_iov m of
                  [] \<Rightarrow> None
                | b # bs \<Rightarrow> Some (stream_write bs (q @ [(b, Some f)])))))"

text \<open>A one-byte \<open>recvmsg\<close> with room for one descriptor; \<open>None\<close> while it has to wait.\<close>

definition stream_recvmsg ::
  "(fd set \<Rightarrow> fd option) \<Rightarrow> bool \<Rightarrow> (fd \<rightharpoonup> nat) \<Rightarrow> stream \<Rightarrow>
   ((int \<times> cmsg option) \<times> (fd \<rightharpoonup> nat) \<times> stream) option" where
  "stream_recvmsg alloc closed files q =
     (case q of
        [] \<Rightarrow> if closed then Some ((0, None), files, []) else None
      | (b, None) # q' \<Rightarrow> Some ((1, None), files, q')
      | (b, Some f) # q' \<Rightarrow>
          (case alloc (dom files) of
             None \<Rightarrow> Some ((1, None), files, q')
           | Some fd \<Rightarrow>
               Some ((1, Some \<lparr>cm_level = SOL_SOCKET, cm_type = SCM_RIGHTS, cm_fd = fd\<rparr>),
                     files(fd \<mapsto> f), q')))"

context fd_source
begin

lemma passed_fd:
  assumes "stream_sendmsg sender (rights_msg fd) [] = Some q" "alloc (dom receiver) \<noteq> None"
  shows "\<exists>f fd' files'. sender fd = Some f \<and>
     stream_recvmsg alloc closed receiver (q @ later) =
       Some ((1, Some \<lparr>cm_level = SOL_SOCKET, cm_type = SCM_RIGHTS, cm_fd = fd'\<rparr>), files', later) \<and>
     fd' \<notin> dom receiver \<and> files' = receiver(fd' \<mapsto> f)"
proof -
  obtain f where f: "sender fd = Some f" "q = [(0, Some f)]"
    using assms(1) by (auto simp: stream_sendmsg_def rights_msg_def stream_write_def split: option.splits)
  obtain fd' where fd': "alloc (dom receiver) = Some fd'" using assms(2) by blast
  with alloc_fresh f show ?thesis by (auto simp: stream_recvmsg_def)
qed

end



end
