(* ===== verification/Server_Total.thy ===== *)
theory Server_Total
  imports Server_Shutdown
begin

section \<open>The loop neither panics nor hangs while the rings are intact\<close>

text \<open>
  The only routines of the daemon that can fault are those that touch shared memory. They do
  not as long as the shared ring of every session stands for some history; and no handler
  changes a ring except the one that writes output into it and the one that makes a new one.
\<close>

declare sr_rep.simps [simp del]

subsection \<open>The rings of the sessions\<close>

definition ring_of :: "session \<Rightarrow> shared_ring \<times> bytes" where
  "ring_of s = (s_shared_ring s, s_ring_mem s)"

definition rings :: "server \<Rightarrow> uuid \<rightharpoonup> shared_ring \<times> bytes" where
  "rings st sid = map_option ring_of (get_session st sid)"

text \<open>Every ring stands for a history that leaves room for \<open>n\<close> bytes below the counter's range.\<close>

definition rings_ok :: "nat \<Rightarrow> (uuid \<rightharpoonup> shared_ring \<times> bytes) \<Rightarrow> bool" where
  "rings_ok n R \<longleftrightarrow> n < 2 ^ 64 \<and> (\<forall>sid x. R sid = Some x \<longrightarrow> (\<exists>h. sr_rep x h \<and> length h + n < 2 ^ 64))"

lemma rings_ok_le: "rings_ok n R \<Longrightarrow> R' \<subseteq>\<^sub>m R \<Longrightarrow> rings_ok n R'"
  unfolding rings_ok_def map_le_def by (metis domI)

lemma rings_ok_less: "rings_ok (m + n) R \<Longrightarrow> rings_ok n R"
  unfolding rings_ok_def by (metis add.assoc add.commute add_lessD1)

lemma rings_ok_upd:
  "rings_ok n R \<Longrightarrow> sr_rep x h \<Longrightarrow> length h + n < 2 ^ 64 \<Longrightarrow> rings_ok n (R(sid \<mapsto> x))"
  unfolding rings_ok_def by auto

lemma rings_okD:
  assumes "rings_ok n (rings st)" "get_session st sid = Some s"
  obtains h where "sr_rep (s_shared_ring s, s_ring_mem s) h" "length h + n < 2 ^ 64"
proof -
  have "rings st sid = Some (s_shared_ring s, s_ring_mem s)"
    using assms(2) by (simp add: rings_def ring_of_def)
  with assms(1) that show thesis unfolding rings_ok_def by blast
qed

lemma dump_total:
  assumes "rings_ok n (rings st)" "get_session st sid = Some s"
  shows "\<exists>d. shm_dump (s_shared_ring s) (s_ring_mem s) = Inr d"
  by (rule rings_okD [OF assms]) (auto dest: shm_dump_rep)

subsection \<open>What the handlers do to them\<close>

named_theorems rings_simps

lemma ring_of_simps [rings_simps]:
  "ring_of (session_detach d s) = ring_of s" "ring_of (baton_detach d s) = ring_of s"
  "ring_of (session_attach now fd s) = ring_of s" "ring_of (refresh_snapshot e s) = ring_of s"
  "ring_of (dec_ws_count s) = ring_of s" "ring_of (forget_previous_owner fd s) = ring_of s"
  "ring_of (s_winsize_update f1 s) = ring_of s" "ring_of (s_terminal_state_update f2 s) = ring_of s"
  "ring_of (s_grid_snapshot_update f3 s) = ring_of s" "ring_of (s_previous_owner_fd_update f4 s) = ring_of s"
  "ring_of (s_baton_release_at_update f5 s) = ring_of s" "ring_of (s_ws_client_count_update f6 s) = ring_of s"
  by (simp_all add: ring_of_def session_detach_def baton_detach_def session_attach_def refresh_snapshot_def
      dec_ws_count_def forget_previous_owner_def Let_def)

lemma rings_small [rings_simps]:
  "rings (emit cs st) = rings st" "rings (put_client fd c st) = rings st"
  "rings (notify_ended sid st) = rings st" "rings (sv_pending_dup_fds_update f st) = rings st"
  "rings (del_session sid st) = (rings st)(sid := None)" "rings (add_client fd st) = rings st"
  "rings (sv_running_update g st) = rings st" "rings (sv_idle_since_update h st) = rings st"
  "rings (sv_ws_sent_update k st) = rings st" "rings (sv_ws_cmd_open_update l st) = rings st"
  "rings (sv_ws_replies_update m st) = rings st"
  by (auto simp: rings_def get_session_def emit_def put_client_def notify_ended_def del_session_def sm_get_def
      add_client_def AList.delete_conv' split: prod.splits)

lemma rings_put [rings_simps]: "rings (put_session sid s st) = (rings st)(sid \<mapsto> ring_of s)"
  by (auto simp: rings_def server_simps)

lemma rings_get [rings_simps]: "get_session st sid = Some s \<Longrightarrow> rings st sid = Some (ring_of s)"
  by (simp add: rings_def)

lemma rings_put_same:
  "get_session st sid = Some s \<Longrightarrow> ring_of s' = ring_of s \<Longrightarrow> rings (put_session sid s' st) = rings st"
  by (simp add: rings_simps fun_upd_idem)

lemma handler_rings [rings_simps]:
  "rings (snd (handle_detach sid cols rows d st)) = rings st"
  "rings (snd (handle_attach e fd sid st)) = rings st"
  "rings (snd (handle_winsize_update e sid cols rows st)) = rings st"
  by (auto simp: handle_detach_def handle_attach_def handle_winsize_update_def Let_def rings_simps
      fun_upd_idem split: option.splits)

lemma takeover_rings [rings_simps]:
  "rings (snd (handle_baton_takeover e sid st)) = rings st"
  "rings (snd (handle_baton_release e sid st)) = rings st"
  by (auto simp: handle_baton_takeover_def handle_baton_release_def Let_def split_beta server_simps
      force_complete_takeover_def wait_for_detach_ack_def rings_simps fun_upd_idem split: option.splits)

lemma remote_rings [rings_simps]:
  "rings (snd (handle_ws_detach e cid sid st)) = rings st"
  "rings (handle_ws_client_disconnect e cid st) = rings st"
  "rings (handle_ws_input e sid d st) = rings st"
  by (auto simp: handle_ws_detach_def handle_ws_client_disconnect_def handle_ws_input_def Let_def
      rings_simps fun_upd_idem split: option.splits)

lemma kill_rings: "rings (snd (handle_kill e sid st)) \<subseteq>\<^sub>m rings st"
  by (auto simp: handle_kill_def sm_remove_del Let_def split_beta del_session_upd rings_simps map_le_def
      split: option.splits)

lemma finish_attach_rings [rings_simps]: "rings (finish_attach e fd resp st) = rings st"
proof -
  have "rings (snd (send_attach_data e fd sid st)) = rings st" "rings (close_pending sid st) = rings st" for sid st
    by (auto simp: send_attach_data_def take_pending_def close_pending_def rings_simps split: option.splits)
  moreover from this(2) have "rings (revert_attach sid st) = rings st" for sid st
    by (simp add: revert_attach_def Let_def rings_small(1) rings_put_same ring_of_simps split: option.split)
  ultimately show ?thesis
    by (auto simp: finish_attach_def split_beta split: response.splits)
qed


subsection \<open>Requests and commands\<close>

text \<open>Shared memory that can be created, with mappings of the length that was asked for.\<close>

definition shm_sound :: "env \<Rightarrow> bool" where
  "shm_sound e \<longleftrightarrow> shm_works e \<and> 0 < so_page_size (e_shm e) \<and>
     (\<forall>n m. so_mmap (e_shm e) n = Some m \<longrightarrow> length m = n)"

lemma create_rings:
  assumes ok: "rings_ok n (rings st)" and shm: "shm_sound e"
    and run: "handle_create e shell cols rows dir tid envs st = Inr (resp, st')"
  shows "rings_ok n (rings st')"
proof -
  have new: "sr_rep (ring_of s) []"
    if created: "session_new now k (e_shm e) m pid name ws t = (Inr s, cs)" for now k m pid name ws t s cs
  proof -
    obtain r mem cs' where c: "shm_create (e_shm e) (shm_name_for_session k) rb_default_ring_size = (Inr (r, mem), cs')"
      using created by (auto simp: session_new_def Let_def split: sum.splits prod.splits)
    then have "sr_rep (r, mem) []"
      using shm_create_ok [OF c] shm by (simp add: rb_default_ring_size_def shm_sound_def)
    with created c show ?thesis by (auto simp: session_new_def Let_def ring_of_def)
  qed
  have n: "n < 2 ^ 64" using ok by (simp add: rings_ok_def)
  show ?thesis
  proof (cases "e_pty e (open_fds st) (case shell of None \<Rightarrow> [] | Some x \<Rightarrow> x) cols rows dir tid envs")
    case None
    with run ok show ?thesis by (simp add: handle_create_def Let_def)
  next
    case (Some p)
    with run obtain s cs fd pid name where
        s: "session_new (e_now e) (e_uuid e) (e_shm e) fd pid name \<lparr>ws_cols = cols, ws_rows = rows\<rparr> tid = (Inr s, cs)"
      and "sv_sessions st' = AList.update (s_id s) s (sv_sessions st)"
      by (cases p) (auto simp: handle_create_def Let_def sm_add_def emit_def split: prod.splits sum.splits)
    then have "rings st' = (rings st)(s_id s \<mapsto> ring_of s)"
      using rings_put [of "s_id s" s st] by (simp add: fun_eq_iff rings_def get_session_def put_session_def sm_put_def)
    then show ?thesis
      using rings_ok_upd [OF ok new [OF s], of "s_id s"] n by simp
  qed
qed

lemma request_rings:
  assumes ok: "rings_ok n (rings st)" and shm: "shm_sound e"
    and run: "handle_request e fd req st = Inr (resp, st')"
  shows "rings_ok n (rings st')"
proof (cases req)
  case (Req_Create shell cols rows dir tid envs)
  with run create_rings [OF ok shm] show ?thesis by (auto simp: handle_request_def)
next
  case (Req_Kill sid)
  with run have "st' = snd (handle_kill e sid st)" by (simp add: handle_request_def)
  with rings_ok_le [OF ok kill_rings] show ?thesis by simp
next
  case (Req_Attach sid)
  with run have "st' = snd (handle_attach e fd sid st)" by (simp add: handle_request_def)
  with ok show ?thesis by (simp add: rings_simps)
next
  case (Req_Detach sid cols rows d)
  with run have "st' = snd (handle_detach sid cols rows d st)" by (simp add: handle_request_def)
  with ok show ?thesis by (simp add: rings_simps)
next
  case (Req_WinsizeUpdate sid cols rows)
  with run have "st' = snd (handle_winsize_update e sid cols rows st)" by (simp add: handle_request_def)
  with ok show ?thesis by (simp add: rings_simps)
next
  case (Req_Input sid d)
  with run ok show ?thesis
    by (auto simp: handle_request_def handle_remote_input_def rings_simps split: option.splits)
qed (use run ok in \<open>auto simp: handle_request_def rings_simps\<close>)

lemma ws_attach_total:
  assumes "rings_ok n (rings st)"
  shows "\<exists>resp st'. handle_ws_attach e cid sid st = Inr (resp, st') \<and> rings st' = rings st"
proof -
  define st1 where "st1 = (if case get_session st sid of None \<Rightarrow> False | Some s \<Rightarrow> s_state s = Attached
    then snd (handle_baton_takeover e sid st) else st)"
  have r: "rings st1 = rings st" by (simp add: st1_def rings_simps)
  show ?thesis
  proof (cases "get_session st1 sid")
    case None
    with r show ?thesis by (simp add: handle_ws_attach_def flip: st1_def)
  next
    case (Some s)
    obtain d where d: "shm_dump (s_shared_ring s) (s_ring_mem s) = Inr d"
      using dump_total [of n st1 sid s] assms r Some by auto
    have "s_shared_ring (refresh_snapshot e s) = s_shared_ring s" "s_ring_mem (refresh_snapshot e s) = s_ring_mem s"
      by simp_all
    with Some d r show ?thesis
      by (auto simp: handle_ws_attach_def Let_def rings_small(1) rings_put_same ring_of_simps simp flip: st1_def)
  qed
qed

lemma ws_command_total:
  assumes ok: "rings_ok n (rings st)" and shm: "shm_sound e"
  shows "\<exists>st'. handle_ws_command e cmd st = Inr st' \<and> rings_ok n (rings st')"
proof (cases cmd)
  case (Wc_request cid req)
  have "\<exists>resp st'. ws_request e cid req st = Inr (resp, st') \<and> rings_ok n (rings st')"
  proof (cases req)
    case (Req_Attach sid)
    with ws_attach_total [OF ok] ok show ?thesis by (fastforce simp: ws_request_def)
  next
    case (Req_Detach sid cols rows d)
    then have "ws_request e cid req st = Inr (handle_ws_detach e cid sid st)" by (simp add: ws_request_def)
    moreover obtain resp st' where "handle_ws_detach e cid sid st = (resp, st')" by fastforce
    moreover have "rings_ok n (rings (snd (handle_ws_detach e cid sid st)))" using ok by (simp add: rings_simps)
    ultimately show ?thesis by simp
  qed (use handle_request_total request_rings [OF ok shm] shm in
      \<open>fastforce simp: ws_request_def shm_sound_def\<close>)+
  with Wc_request show ?thesis by (auto simp: handle_ws_command_def rings_simps)
next
  case (Wc_disconnected cid)
  with ok show ?thesis by (simp add: handle_ws_command_def rings_simps)
next
  case (Wc_input sid d)
  with ok show ?thesis by (simp add: handle_ws_command_def rings_simps)
qed


subsection \<open>The rest of the loop\<close>

lemma drain_total:
  assumes "rings_ok n (rings st)" "\<And>e cmd. (e, cmd) \<in> set cmds \<Longrightarrow> shm_sound e"
  shows "\<exists>st'. drain_ws_commands cmds disc st = Inr st' \<and> rings_ok n (rings st')"
proof -
  have "\<exists>st'. run_res (\<lambda>st (e, cmd). handle_ws_command e cmd st) st cmds = Inr st' \<and> rings_ok n (rings st')"
    if "rings_ok n (rings st)" for st
    using that by (rule run_res_total) (use assms(2) ws_command_total in \<open>auto split: prod.splits\<close>)
  with assms(1) show ?thesis by (simp add: drain_ws_commands_def rings_simps)
qed

lemma crash_detach_total:
  assumes "rings_ok n (rings st)"
  shows "\<exists>st'. crash_detach p st = Inr st' \<and> rings_ok n (rings st')"
proof -
  let ?st = "close_pending (fst p) st"
  have r: "rings ?st = rings st"
    by (auto simp: take_pending_def close_pending_def rings_simps split: option.splits)
  show ?thesis
  proof (cases "get_session ?st (fst p)")
    case None
    with r assms show ?thesis by (simp add: crash_detach_def Let_def rings_simps)
  next
    case (Some s)
    obtain d where "shm_dump (s_shared_ring s) (s_ring_mem s) = Inr d"
      using dump_total [of n ?st "fst p" s] assms r Some by auto
    with Some r assms show ?thesis
      by (simp add: crash_detach_def Let_def rings_small(1) rings_put_same ring_of_simps)
  qed
qed

lemma disconnect_total:
  assumes "rings_ok n (rings st)"
  shows "\<exists>st'. handle_client_disconnect fd st = Inr st' \<and> rings_ok n (rings st')"
proof -
  have forget: "rings (st\<lparr>sv_clients := c, sv_trace := t,
      sv_sessions := map (\<lambda>(k, s). (k, forget_previous_owner fd s)) (sv_sessions st)\<rparr>) = rings st" for c t
    by (simp add: fun_eq_iff rings_def get_session_def sm_get_def map_of_map option.map_comp comp_def ring_of_simps)
  have "\<exists>st'. run_res (\<lambda>st p. crash_detach p st) st ps = Inr st' \<and> rings_ok n (rings st')"
    if "rings_ok n (rings st)" for st ps
    using that by (rule run_res_total) (use crash_detach_total in blast)
  with assms forget show ?thesis
    by (simp add: handle_client_disconnect_def Let_def emit_def)
qed

lemma client_loop_rings:
  assumes "client_loop k E fd st = Inr st'" "rings_ok n (rings st)" "\<And>i. shm_sound (E i)"
  shows "rings_ok n (rings st')"
  using assms
proof (induction k arbitrary: st)
  case 0
  then show ?case by simp
next
  case (Suc k)
  show ?case
  proof (cases "\<exists>c result m. get_client st fd = Some c \<and>
      try_decode_message (e_dec_request (E k)) (c_read_buf c) = Some (result, m)")
    case False
    with Suc.prems show ?thesis by (auto split: option.splits)
  next
    case True
    with Suc.prems(1) obtain result m resp st1 st2 where a: "answer (E k) fd result st = Inr (resp, st1)"
      and s: "send_response fd resp m st1 = Inr st2"
      and rest: "client_loop k E fd (finish_attach (E k) fd resp st2) = Inr st'"
      by (auto simp: bind_res_Inr_iff)
    have "rings_ok n (rings st1)"
      using a Suc.prems(2) request_rings [OF Suc.prems(2) Suc.prems(3)]
      by (auto simp: answer_def split: sum.splits)
    moreover have "rings st2 = rings st1"
      using s by (auto simp: send_response_def rings_simps split: option.splits if_splits)
    ultimately show ?thesis
      using Suc.IH [OF rest _ Suc.prems(3)] by (simp add: rings_simps)
  qed
qed

text \<open>What one event can write into a ring.\<close>

definition event_bytes :: "(nat \<Rightarrow> env) \<Rightarrow> nat" where
  "event_bytes E = (case e_pty_read (E 0) of Pty_data d \<Rightarrow> length d | _ \<Rightarrow> 0)"

text \<open>The environments of one event: the codec is one function and shared memory works.\<close>

definition event_env :: "(nat \<Rightarrow> env) \<Rightarrow> bool" where
  "event_env E \<longleftrightarrow> (\<forall>i. env_ok (E i) \<and> shm_sound (E i) \<and> e_dec_request (E i) = e_dec_request (E 0))"

lemma client_data_total:
  assumes inv: "sv_inv st" and ok: "rings_ok n (rings st)" and env: "event_env E"
  shows "\<exists>b st'. handle_client_data E r fd st = Inr (b, st') \<and> rings_ok n (rings st')"
proof (cases "get_client st fd")
  case None
  with ok show ?thesis by (auto simp: handle_client_data_def)
next
  case c: (Some c)
  show ?thesis
  proof (cases r)
    case Sock_eof
    with c disconnect_total [OF ok, of fd] show ?thesis by (auto simp: handle_client_data_def)
  next
    case (Sock_data d)
    let ?c = "c\<lparr>c_read_buf := c_read_buf c @ d\<rparr>"
    let ?st = "put_client fd ?c st"
    have "sv_core ?st" using inv c by (intro sv_core_put_client [where c = c]) (simp_all add: sv_inv_def)
    then have "sv_inv ?st" using inv by (simp add: sv_inv_def pending_simps)
    moreover have "get_client ?st fd = Some ?c" by (simp add: get_client_simps)
    ultimately obtain st' where loop: "client_loop (Suc (length (c_read_buf ?c))) E fd ?st = Inr st'"
      using client_loop_answers [of ?st E "e_dec_request (E 0)" fd ?c "Suc (length (c_read_buf ?c))"] env
      by (auto simp: event_env_def shm_sound_def simp del: client_loop.simps)
    have "rings_ok n (rings ?st)" using ok by (simp add: rings_simps)
    then have "rings_ok n (rings st')"
      using client_loop_rings [OF loop] env by (simp add: event_env_def)
    with loop c Sock_data show ?thesis
      by (auto simp: handle_client_data_def Let_def simp del: client_loop.simps)
  qed (use c ok in \<open>auto simp: handle_client_data_def\<close>)
qed

lemma drop_rings: "rings (drop_session e sid st) \<subseteq>\<^sub>m rings st"
proof -
  have "rings (drop_session e sid st) = (rings st)(sid := None)"
    by (auto simp: fun_eq_iff drop_session_def sm_remove_def rings_def get_session_def sm_get_def emit_def
        AList.delete_conv' split: option.splits)
  then show ?thesis by (auto simp: map_le_def)
qed

lemma child_exit_rings: "rings (handle_child_exit e pid st) \<subseteq>\<^sub>m rings st"
proof (cases "find_by_child_pid (sv_sessions (emit [Wait_pid pid] st)) pid")
  case None
  then show ?thesis by (simp add: handle_child_exit_def Let_def rings_simps)
next
  case (Some s)
  then show ?thesis
    using drop_rings [of e "s_id s" "notify_ended (s_id s) (emit [Kq_delete (s_master_fd s)] (emit [Wait_pid pid] st))"]
    by (simp add: handle_child_exit_def Let_def rings_small)
qed

lemma output_total:
  assumes core: "sv_core st" and ok: "rings_ok (k + n) (rings st)"
    and k: "k = (case r of Pty_data d \<Rightarrow> length d | _ \<Rightarrow> 0)"
  shows "\<exists>st'. handle_session_output e r fd st = Inr st' \<and> rings_ok n (rings st')"
proof -
  have ok': "rings_ok n (rings st)" using ok by (rule rings_ok_less)
  show ?thesis
  proof (cases "find_by_master_fd (sv_sessions st) fd")
    case None
    with ok' show ?thesis by (simp add: handle_session_output_def)
  next
    case t: (Some t)
    with find_by_get(1) [OF core t] obtain s where s: "get_session st (s_id t) = Some s" by auto
    have dropped: "rings_ok n (rings (drop_session e sid (emit [Kq_delete fd] st)))" for sid
      by (rule rings_ok_le [OF ok' drop_rings [of e sid "emit [Kq_delete fd] st", unfolded rings_small]])
    consider (quiet) "s_state s = Attached \<or> (\<forall>d. r \<noteq> Pty_data d)" | (data) d where "s_state s \<noteq> Attached" "r = Pty_data d"
      by blast
    then show ?thesis
    proof cases
      case quiet
      with t s ok' dropped show ?thesis
        by (cases r) (auto simp: handle_session_output_def Let_def)
    next
      case (data d)
    obtain h where h: "sr_rep (s_shared_ring s, s_ring_mem s) h" "length h + (length d + n) < 2 ^ 64"
      using rings_okD [OF ok s] k data(2) by auto
    then have "length h + length d < 2 ^ 64" by linarith
    from shm_write_rep [OF h(1) this] obtain m where m: "shm_write (s_shared_ring s) (s_ring_mem s) d = Inr m"
      "sr_rep (s_shared_ring s, m) (h @ d)" by blast
    define s1 where "s1 = s\<lparr>s_ring_mem := m, s_terminal_state := map_option (ts_feed d) (s_terminal_state s),
      s_last_active := e_now e\<rparr>"
    define s2 where "s2 = (if s_state s1 = Idle then promote_to_active (e_now e) s1 else s1)"
    have "sr_rep (ring_of s2) (h @ d)"
      using m(2) by (simp add: s2_def s1_def ring_of_def promote_to_active_def)
    moreover have "length (h @ d) + n < 2 ^ 64" using h(2) by simp
    ultimately have "rings_ok n ((rings st)(s_id t \<mapsto> ring_of s2))" using ok' by (intro rings_ok_upd)
    with t s data m(1) show ?thesis
      by (auto simp: handle_session_output_def Let_def rings_simps s2_def s1_def)
    qed
  qed
qed

lemma accept_rings: "rings (snd (accept_clients rs st)) = rings st"
  by (induction rs arbitrary: st) (auto simp: rings_simps split: accept_result.splits)

lemma dispatch_total:
  assumes inv: "sv_inv st" and ok: "rings_ok (event_bytes E + n) (rings st)" and env: "event_env E"
  shows "\<exists>ctl st'. dispatch_event E ev st = Inr (ctl, st') \<and> rings_ok n (rings st')"
proof -
  have ok': "rings_ok n (rings st)" using ok by (rule rings_ok_less)
  have "sv_core st" using inv by (simp add: sv_inv_def)
  from output_total [OF this ok, of "e_pty_read (E 0)" "E 0" "ev_ident ev"]
  have out: "\<exists>st'. handle_session_output (E 0) (e_pty_read (E 0)) (ev_ident ev) st = Inr st' \<and> rings_ok n (rings st')"
    by (simp add: event_bytes_def)
  have "rings_ok n (rings (handle_child_exit (E 0) (ev_ident ev) st))"
    using ok' child_exit_rings by (rule rings_ok_le)
  with out ok' disconnect_total [OF ok', of "ev_ident ev"]
    client_data_total [OF inv ok' env, of "e_sock_read (E 0)" "ev_ident ev"] show ?thesis
    by (auto simp: dispatch_event_def Let_def ctl_of_def accept_rings rings_simps)
qed

fun events_bytes :: "((nat \<Rightarrow> env) \<times> kevent) list \<Rightarrow> nat" where
  "events_bytes [] = 0"
| "events_bytes ((E, ev) # evs) = event_bytes E + events_bytes evs"

lemma dispatch_all_total:
  assumes "sv_inv st" "rings_ok (events_bytes evs + n) (rings st)" "\<And>E ev. (E, ev) \<in> set evs \<Longrightarrow> event_env E"
  shows "\<exists>b st'. dispatch_events evs st = Inr (b, st') \<and> rings_ok n (rings st')"
  using assms
proof (induction evs arbitrary: st)
  case Nil
  then show ?case by auto
next
  case (Cons p evs)
  obtain E ev where p: "p = (E, ev)" by (cases p)
  have env: "event_env E" using Cons.prems(3) p by auto
  obtain ctl st1 where d: "dispatch_event E ev st = Inr (ctl, st1)" "rings_ok (events_bytes evs + n) (rings st1)"
    using dispatch_total [OF Cons.prems(1) _ env, of "events_bytes evs + n" ev] Cons.prems(2) p
    by (auto simp: add.assoc)
  have "sv_inv st1" using dispatch_inv [OF Cons.prems(1) _ d(1)] env by (simp add: event_env_def)
  with Cons.IH [OF this d(2)] Cons.prems(3) have "\<exists>b st'. dispatch_events evs st1 = Inr (b, st') \<and> rings_ok n (rings st')"
    by auto
  with d p rings_ok_less show ?case by (cases ctl) auto
qed

lemma reap_rings: "rings (reap_sessions e st) \<subseteq>\<^sub>m rings st"
proof -
  have each: "map_of m' sid = Some s \<Longrightarrow> map_of m sid = Some s" if "reap_each alive dead m = (m', cs)"
    for alive dead m m' cs sid s
    using that
  proof (induction dead arbitrary: m m' cs)
    case Nil
    then show ?case by simp
  next
    case (Cons p dead)
    obtain k fd where p: "p = (k, fd)" by (cases p)
    with Cons.prems obtain cs' where "reap_each alive dead (AList.delete k m) = (m', cs')"
      by (auto split: option.splits prod.splits)
    with Cons have "map_of (AList.delete k m) sid = Some s" by blast
    then show ?case by (simp add: AList.delete_conv' split: if_splits)
  qed
  have "rings (fold (\<lambda>(sid, fd) st. notify_ended sid (emit [Kq_delete fd] st)) dead st) = rings st" for dead st
    by (induction dead arbitrary: st) (auto simp: rings_simps)
  then show ?thesis
    using each [of "e_alive e" _ "sv_sessions st"]
    by (auto simp: reap_sessions_def reap_dead_def Let_def map_le_def rings_simps split: prod.splits)
      (fastforce simp: rings_def get_session_def sm_get_def)
qed


subsection \<open>Properties\<close>

text \<open>Everything the turn's environment has to provide, and what it can add to the rings.\<close>

definition turn_env :: "env \<Rightarrow> (env \<times> ws_command) list \<Rightarrow> kevent_result \<Rightarrow> bool" where
  "turn_env e cmds result \<longleftrightarrow> (\<forall>(e', cmd) \<in> set cmds. env_ok e' \<and> shm_sound e') \<and>
     (case result of Kev_events evs \<Rightarrow> \<forall>(E, ev) \<in> set evs. event_env E | _ \<Rightarrow> True)"

definition turn_bytes :: "kevent_result \<Rightarrow> nat" where
  "turn_bytes result = (case result of Kev_events evs \<Rightarrow> events_bytes evs | _ \<Rightarrow> 0)"

lemma turn_total:
  assumes start: "sv_inv st" and ok: "rings_ok (turn_bytes result + n) (rings st)"
    and env: "turn_env e cmds result"
  shows "\<exists>b st'. loop_turn e cmds disc result st = Inr (b, st') \<and> rings_ok n (rings st')"
proof -
  let ?r = "reap_sessions e st"
  have inv: "sv_inv ?r" using start by (rule reap_inv)
  have "rings_ok (turn_bytes result + n) (rings ?r)" using ok reap_rings by (rule rings_ok_le)
  with drain_total [of "turn_bytes result + n" ?r cmds disc] env obtain st1 where
      d: "drain_ws_commands cmds disc ?r = Inr st1" and ok1: "rings_ok (turn_bytes result + n) (rings st1)"
    unfolding turn_env_def by blast
  have inv1: "sv_inv st1" using env by (intro drain_inv [OF inv _ d]) (auto simp: turn_env_def)
  obtain go st2 where i: "idle_check (e_now e) st1 = (go, st2)" by fastforce
  have inv2: "sv_inv st2" using idle_inv [OF inv1, of "e_now e"] i by simp
  have "rings (snd (idle_check (e_now e) st1)) = rings st1"
    by (auto simp: idle_check_def Let_def rings_simps split: option.splits)
  with i ok1 have ok2: "rings_ok (turn_bytes result + n) (rings st2)" by simp
  have "\<exists>b st'. dispatch_events evs st2 = Inr (b, st') \<and> rings_ok n (rings st')" if "result = Kev_events evs" for evs
    using that ok2 env by (intro dispatch_all_total [OF inv2]) (auto simp: turn_bytes_def turn_env_def)
  with rings_ok_less [OF ok2] d i show ?thesis
    by (cases result) (auto simp: loop_turn_def)
qed

text \<open>
  C27: a turn of the event loop always returns. As long as every session's ring stands for a
  history and has room, no sequence of client data, remote commands, child exits, PTY output and
  new connections makes the daemon panic, leave the mapping or spin; and the rings stay intact,
  so the same holds of the next turn.
\<close>

theorem loop_turn_returns:
  assumes reach: "sv_reach st" and ok: "rings_ok (turn_bytes result + n) (rings st)"
    and env: "turn_env e cmds result"
  shows "\<exists>b st'. loop_turn e cmds disc result st = Inr (b, st') \<and> rings_ok n (rings st')"
  by (rule turn_total [OF reach_inv [OF reach] ok env])

lemma demo_shm_sound: "shm_sound (demo_env\<lparr>e_pty_read := r\<rparr>)" "shm_sound demo_env"
  using demo_shm_works by (simp_all add: shm_sound_def shm_works_def demo_env_def demo_shm_def)

theorem loop_turn_returns_witness:
  "\<exists>b st'. loop_turn demo_env [(demo_env, Wc_request 1 (Req_Attach 7))] False
     (Kev_events [(\<lambda>i. demo_env\<lparr>e_pty_read := Pty_data [104, 105]\<rparr>, ev_on 11)]) demo_attached = Inr (b, st') \<and>
     rings_ok 5 (rings st')"
proof -
  let ?evs = "[(\<lambda>i::nat. demo_env\<lparr>e_pty_read := Pty_data [104, 105]\<rparr>, ev_on 11)]"
  obtain s where s: "get_session demo_attached 7 = Some s" "ring_holds s []" "map fst (sv_sessions demo_attached) = [7]"
    using demo_attached_eq by auto
  then have "get_session demo_attached k = None" if "k \<noteq> 7" for k
  proof -
    have "k \<notin> fst ` set (sv_sessions demo_attached)" using that s(3) by (metis empty_iff insertE list.set(1,2) set_map)
    then show ?thesis by (simp add: get_session_def sm_get_def map_of_eq_None_iff)
  qed
  then have "rings demo_attached = [7 \<mapsto> ring_of s]" using s(1) by (auto simp: fun_eq_iff rings_def)
  then have "rings_ok 7 (rings demo_attached)"
    using s(2) by (auto simp: rings_ok_def ring_holds_def ring_of_def)
  moreover have "env_ok (demo_env\<lparr>e_pty_read := r\<rparr>)" for r
    using demo_env_ok(2) by (simp add: env_ok_def)
  then have "turn_env demo_env [(demo_env, Wc_request 1 (Req_Attach 7))] (Kev_events ?evs)"
    using demo_env_ok(2) demo_shm_sound by (simp add: turn_env_def event_env_def)
  ultimately show ?thesis
    using loop_turn_returns [OF demo_reach(4), of "Kev_events ?evs" 5] by (simp add: turn_bytes_def event_bytes_def)
qed

text \<open>
  C38: one client can end the daemon. When the shared memory for a new session cannot be created,
  the request to create it does not get an error response: the PTY and the shell exist already,
  and the daemon panics out of its event loop, so that all sessions of all clients go.
\<close>

theorem create_failure_panics:
  assumes c: "get_client st fd = Some c" "c_read_buf c = []"
    and ev: "ev_filter ev = Filt_read" "ev_ident ev = fd" "\<not> ev_eof ev" "fd \<noteq> sv_listener_fd st"
      "\<forall>rfd wfd. sv_ws_wakeup_pipe st = Some (rfd, wfd) \<longrightarrow> fd \<noteq> rfd"
    and read: "e_sock_read (E 0) = Sock_data b"
      "try_decode_message (e_dec_request (E (length b))) b = Some (Inr (Req_Create shell cols rows dir tid envs), n)"
    and fails: "e_pty (E (length b)) (open_fds st) (case shell of None \<Rightarrow> [] | Some x \<Rightarrow> x) cols rows dir tid envs = Some p"
      "so_open (e_shm (E (length b))) < 0"
  shows "dispatch_events ((E, ev) # evs) st = Inl Panic"
proof -
  let ?st = "put_client fd (c\<lparr>c_read_buf := b\<rparr>) st"
  have "open_fds ?st = open_fds st" using c(1) by (rule open_fds_simps)
  with fails have "handle_request (E (length b)) fd (Req_Create shell cols rows dir tid envs) ?st = Inl Panic"
    by (cases p) (simp add: handle_request_def handle_create_def Let_def session_new_def shm_create_def
        shm_name_c_string split: sum.split)
  moreover have "get_client ?st fd = Some (c\<lparr>c_read_buf := b\<rparr>)" by (simp add: server_simps)
  ultimately have "handle_client_data E (Sock_data b) fd st = Inl Panic"
    using c read(2) by (simp add: handle_client_data_def Let_def answer_def)
  then show ?thesis
    using c(1) ev read(1) by (auto simp: dispatch_event_def Let_def split: option.split)
qed

theorem create_failure_panics_witness:
  "dispatch_events [(\<lambda>i. demo_env\<lparr>e_shm := demo_shm\<lparr>so_open := -1\<rparr>\<rparr>, ev_on 10)] demo_connected = Inl Panic"
proof -
  let ?E = "\<lambda>i::nat. demo_env\<lparr>e_shm := demo_shm\<lparr>so_open := -1\<rparr>\<rparr>"
  have "get_client demo_connected 10 = Some \<lparr>c_stream = 10, c_read_buf = []\<rparr>"
    by (simp add: demo_connected_eq get_client_def)
  moreover have "try_decode_message f [0, 0, 0, 0] = Some (f [], 4)" for f :: "bytes \<Rightarrow> string + request"
    by (simp add: try_decode_message_def be_nat_def)
  moreover have "sv_listener_fd demo_connected = 5" "sv_ws_wakeup_pipe demo_connected = Some (6, 8)"
    "11 \<notin> open_fds demo_connected"
    by (simp_all add: demo_connected_eq demo_start_def server_start_def server_new_def emit_def open_fds_def
        fd_list_def new_fds_def)
  ultimately show ?thesis
    using create_failure_panics [of demo_connected 10 "\<lparr>c_stream = 10, c_read_buf = []\<rparr>" "ev_on 10" ?E "[0, 0, 0, 0]"
        None 80 24 None None None 4 "(11, 100, ''/dev/ttys1'')" "[]"]
    by (simp add: ev_on_def demo_env_def)
qed

end
