(* ===== verification/Cli.thy ===== *)
theory Cli
  imports Fd_Passing Server_Total
begin

section \<open>The command line client (\<open>main.rs\<close>)\<close>

text \<open>
  Every command connects, sends one request, waits for one response and prints something; attach
  goes on to relay the terminal. What a command printed is a list of lines, with the values in
  them but not their formatting; how it ended is its exit, or an error that \<open>main\<close> reports.
\<close>

subsection \<open>Environment, output and outcomes\<close>

datatype cli_error =
    Cannot_connect
  | Cli_io
  | Daemon_closed
  | Bad_response string
  | Invalid_uuid
  | Fd_error io_error
  | Open_ring_error io_error

datatype cli_line =
    Line_session uuid
  | Line_error error_text
  | Line_unexpected response
  | Line_denied string
  | Line_attached uuid fd pid u16 u16 string
  | Line_detached uuid
  | Line_no_sessions
  | Line_list_header
  | Line_list_entry session_info
  | Line_killed uuid
  | Line_pong u16 nat
  | Line_shutting_down
  | Line_usage string
  | Line_failure cli_error
  | Raw_bytes bytes

datatype cli_end = Cli_ok | Cli_exit nat | Cli_fail cli_error

text \<open>One return of \<open>poll\<close> and of the reads and the write that follow it; \<open>None\<close> is a read
  that returned nothing or failed.\<close>

record poll_step =
  pl_ret :: int
  pl_stdin :: "bytes option option"
  pl_detach_reads :: "sock_read list"
  pl_detach_write_ok :: bool
  pl_write :: int
  pl_pty :: "bytes option option"
  pl_hangup :: bool

record cli_env =
  ce_connect :: bool
  ce_write_ok :: bool
  ce_reads :: "sock_read list"
  ce_to_vec :: "request \<Rightarrow> bytes"
  ce_from_slice :: "bytes \<Rightarrow> string + response"
  ce_parse_uuid :: "string \<Rightarrow> uuid option"
  ce_cwd :: "string option"
  ce_recvmsg :: "int \<times> cmsg option"
  ce_shm :: shm_os
  ce_polls :: "poll_step list"

subsection \<open>One request and its response\<close>

text \<open>
  The read loop of \<open>send_request\<close>: what follows the first message in the buffer is dropped with
  the buffer. \<open>None\<close>: the reads so far do not end it and it waits for more.
\<close>

fun recv_response ::
  "(bytes \<Rightarrow> string + response) \<Rightarrow> sock_read list \<Rightarrow> bytes \<Rightarrow> (cli_error + response) option" where
  "recv_response dec [] buf = None"
| "recv_response dec (Sock_eof # rs) buf = Some (Inl Daemon_closed)"
| "recv_response dec (Sock_would_block # rs) buf = Some (Inl Cli_io)"
| "recv_response dec (Sock_error # rs) buf = Some (Inl Cli_io)"
| "recv_response dec (Sock_data d # rs) buf =
     (case try_decode_message dec (buf @ d) of
        None \<Rightarrow> recv_response dec rs (buf @ d)
      | Some (Inl err, n) \<Rightarrow> Some (Inl (Bad_response err))
      | Some (Inr resp, n) \<Rightarrow> Some (Inr resp))"

definition send_request ::
  "cli_env \<Rightarrow> bool \<Rightarrow> sock_read list \<Rightarrow> request \<Rightarrow> bytes \<times> (cli_error + response) option" where
  "send_request e write_ok reads req =
     (encode_message (ce_to_vec e) req,
      if write_ok then recv_response (ce_from_slice e) reads [] else Some (Inl Cli_io))"

text \<open>Bytes sent, lines printed and the end; no end while the client waits.\<close>

type_synonym cli_run = "bytes \<times> cli_line list \<times> cli_end option"

definition with_response :: "cli_env \<Rightarrow> request \<Rightarrow> (response \<Rightarrow> cli_line list \<times> cli_end) \<Rightarrow> cli_run" where
  "with_response e req show_response =
     (if \<not> ce_connect e then ([], [], Some (Cli_fail Cannot_connect))
      else (case send_request e (ce_write_ok e) (ce_reads e) req of
              (sent, None) \<Rightarrow> (sent, [], None)
            | (sent, Some (Inl err)) \<Rightarrow> (sent, [], Some (Cli_fail err))
            | (sent, Some (Inr resp)) \<Rightarrow>
                (case show_response resp of (lines, outcome) \<Rightarrow> (sent, lines, Some outcome))))"

text \<open>Three commands take a session id as their first argument.\<close>

definition with_session_id :: "cli_env \<Rightarrow> string \<Rightarrow> string list \<Rightarrow> (uuid \<Rightarrow> cli_run) \<Rightarrow> cli_run" where
  "with_session_id e name args run =
     (case args of
        [] \<Rightarrow> ([], [Line_usage name], Some (Cli_exit 1))
      | a # as \<Rightarrow>
          (case ce_parse_uuid e a of
             None \<Rightarrow> ([], [], Some (Cli_fail Invalid_uuid))
           | Some sid \<Rightarrow> run sid))"

subsection \<open>The commands\<close>

fun parse_shell :: "string list \<Rightarrow> string option \<Rightarrow> string option" where
  "parse_shell [] shell = shell"
| "parse_shell (a # as) shell =
     (if a = ''--shell'' then (case as of [] \<Rightarrow> None | s # rest \<Rightarrow> parse_shell rest (Some s))
      else parse_shell as shell)"

definition cmd_create :: "cli_env \<Rightarrow> string list \<Rightarrow> cli_run" where
  "cmd_create e args =
     with_response e (Req_Create (parse_shell args None) 80 24 (ce_cwd e) None None)
       (\<lambda>resp. case resp of
          Created sid \<Rightarrow> ([Line_session sid], Cli_ok)
        | Resp_Error m \<Rightarrow> ([Line_error m], Cli_exit 1)
        | _ \<Rightarrow> ([Line_unexpected resp], Cli_ok))"

definition cmd_detach :: "cli_env \<Rightarrow> string list \<Rightarrow> cli_run" where
  "cmd_detach e args =
     with_session_id e ''detach'' args (\<lambda>sid. with_response e (Req_Detach sid 80 24 None)
       (\<lambda>resp. case resp of
          Detached sid \<Rightarrow> ([Line_detached sid], Cli_ok)
        | Resp_Error m \<Rightarrow> ([Line_error m], Cli_exit 1)
        | _ \<Rightarrow> ([Line_unexpected resp], Cli_ok)))"

definition cmd_list :: "cli_env \<Rightarrow> cli_run" where
  "cmd_list e =
     with_response e Req_List
       (\<lambda>resp. case resp of
          SessionList infos \<Rightarrow>
            (if infos = [] then [Line_no_sessions] else Line_list_header # map Line_list_entry infos, Cli_ok)
        | Resp_Error m \<Rightarrow> ([Line_error m], Cli_exit 1)
        | _ \<Rightarrow> ([Line_unexpected resp], Cli_ok))"

definition cmd_kill :: "cli_env \<Rightarrow> string list \<Rightarrow> cli_run" where
  "cmd_kill e args =
     with_session_id e ''kill'' args (\<lambda>sid. with_response e (Req_Kill sid)
       (\<lambda>resp. case resp of
          Killed sid \<Rightarrow> ([Line_killed sid], Cli_ok)
        | Resp_Error m \<Rightarrow> ([Line_error m], Cli_exit 1)
        | _ \<Rightarrow> ([Line_unexpected resp], Cli_ok)))"

definition cmd_ping :: "cli_env \<Rightarrow> cli_run" where
  "cmd_ping e =
     with_response e Req_Ping
       (\<lambda>resp. case resp of
          Pong version n \<Rightarrow> ([Line_pong version n], Cli_ok)
        | Resp_Error m \<Rightarrow> ([Line_error m], Cli_exit 1)
        | _ \<Rightarrow> ([Line_unexpected resp], Cli_ok))"

definition cmd_shutdown :: "cli_env \<Rightarrow> cli_run" where
  "cmd_shutdown e =
     with_response e Req_Shutdown
       (\<lambda>resp. case resp of
          ShuttingDown \<Rightarrow> ([Line_shutting_down], Cli_ok)
        | Resp_Error m \<Rightarrow> ([Line_error m], Cli_exit 1)
        | _ \<Rightarrow> ([Line_unexpected resp], Cli_ok))"

subsection \<open>The interactive relay\<close>

record interactive =
  ia_running :: bool
  ia_to_pty :: bytes
  ia_stdout :: bytes
  ia_mem :: bytes
  ia_sent :: bytes

text \<open>
  Typed bytes go to the PTY in one \<open>write\<close>, whose result is not looked at; a chunk with
  \<open>Ctrl-]\<close> in it is dropped and detaches. The detach waits for a response like any request, so
  it may never return (\<open>None\<close>).
\<close>

definition stdin_step :: "cli_env \<Rightarrow> uuid \<Rightarrow> poll_step \<Rightarrow> interactive \<Rightarrow> interactive option" where
  "stdin_step e sid p st =
     (case pl_stdin p of
        None \<Rightarrow> Some st
      | Some None \<Rightarrow> Some (st\<lparr>ia_running := False\<rparr>)
      | Some (Some d) \<Rightarrow>
          if 0x1d \<in> set d then
            (case send_request e (pl_detach_write_ok p) (pl_detach_reads p) (Req_Detach sid 80 24 None) of
               (sent, None) \<Rightarrow> None
             | (sent, Some r) \<Rightarrow> Some (st\<lparr>ia_running := False, ia_sent := ia_sent st @ sent\<rparr>))
          else Some (st\<lparr>ia_to_pty := ia_to_pty st @ take (nat (pl_write p)) d\<rparr>))"

definition pty_step :: "shared_ring \<Rightarrow> poll_step \<Rightarrow> interactive \<Rightarrow> interactive res" where
  "pty_step ring p st =
     (case pl_pty p of
        None \<Rightarrow> Inr st
      | Some None \<Rightarrow> Inr (st\<lparr>ia_running := False\<rparr>)
      | Some (Some d) \<Rightarrow>
          bind_res (shm_write ring (ia_mem st) d) (\<lambda>mem.
            Inr (st\<lparr>ia_stdout := ia_stdout st @ d, ia_mem := mem\<rparr>)))"

definition interactive_step ::
  "cli_env \<Rightarrow> uuid \<Rightarrow> shared_ring \<Rightarrow> poll_step \<Rightarrow> interactive \<Rightarrow> interactive res option" where
  "interactive_step e sid ring p st =
     (case stdin_step e sid p st of
        None \<Rightarrow> None
      | Some st \<Rightarrow>
          Some (bind_res (pty_step ring p st) (\<lambda>st.
            Inr (if pl_hangup p then st\<lparr>ia_running := False\<rparr> else st))))"

text \<open>\<open>while running\<close>; \<open>None\<close> when the given polls do not end the loop.\<close>

fun interactive_loop ::
  "cli_env \<Rightarrow> uuid \<Rightarrow> shared_ring \<Rightarrow> poll_step list \<Rightarrow> interactive \<Rightarrow> interactive res option" where
  "interactive_loop e sid ring polls st =
     (if \<not> ia_running st then Some (Inr st)
      else (case polls of
              [] \<Rightarrow> None
            | p # ps \<Rightarrow>
                if pl_ret p < 0 then Some (Inr st)
                else (case interactive_step e sid ring p st of
                        None \<Rightarrow> None
                      | Some (Inl f) \<Rightarrow> Some (Inl f)
                      | Some (Inr st) \<Rightarrow> interactive_loop e sid ring ps st)))"

text \<open>
  The terminal's settings are saved, made raw, and put back after the loop, where the master is
  closed. The result has the settings the terminal ends with and the descriptors closed.
\<close>

definition run_interactive ::
  "cli_env \<Rightarrow> ('t \<Rightarrow> 't) \<Rightarrow> 't \<Rightarrow> fd \<Rightarrow> uuid \<Rightarrow> shared_ring \<Rightarrow> bytes \<Rightarrow>
   (interactive res option) \<times> 't \<times> fd list" where
  "run_interactive e cfmakeraw old_termios master_fd sid ring mem =
     (let r = interactive_loop e sid ring (ce_polls e)
                \<lparr>ia_running = True, ia_to_pty = [], ia_stdout = [], ia_mem = mem, ia_sent = []\<rparr>
      in (case r of
            Some (Inr st) \<Rightarrow> (r, old_termios, [master_fd])
          | _ \<Rightarrow> (r, cfmakeraw old_termios, [])))"

text \<open>
  \<open>cmd_attach\<close> up to the relay: the lines it prints, and what the relay is run on.
\<close>

definition attach_ready ::
  "cli_env \<Rightarrow> uuid \<Rightarrow> u16 \<Rightarrow> u16 \<Rightarrow> pid \<Rightarrow> string \<Rightarrow>
   (cli_line list \<times> (cli_error + fd \<times> shared_ring \<times> bytes)) res" where
  "attach_ready e sid cols rows child_pid shm_name =
     (case recv_fd (ce_recvmsg e) of
        Inl err \<Rightarrow> Inr ([], Inl (Fd_error err))
      | Inr master_fd \<Rightarrow>
          (case fst (shm_open (ce_shm e) shm_name) of
             Inl err \<Rightarrow> Inr ([], Inl (Open_ring_error err))
           | Inr (ring, mem) \<Rightarrow>
               bind_res (shm_dump ring mem) (\<lambda>ring_data.
                 Inr ((if ring_data \<noteq> [] then [Raw_bytes ring_data] else []) @
                      [Line_attached sid master_fd child_pid cols rows shm_name],
                      Inr (master_fd, ring, mem)))))"

definition cmd_attach :: "cli_env \<Rightarrow> string list \<Rightarrow>
    (cli_run + bytes \<times> cli_line list \<times> uuid \<times> fd \<times> shared_ring \<times> bytes) res" where
  "cmd_attach e args =
     (case args of
        [] \<Rightarrow> Inr (Inl ([], [Line_usage ''attach''], Some (Cli_exit 1)))
      | a # as \<Rightarrow>
          (case ce_parse_uuid e a of
             None \<Rightarrow> Inr (Inl ([], [], Some (Cli_fail Invalid_uuid)))
           | Some sid \<Rightarrow>
               if \<not> ce_connect e then Inr (Inl ([], [], Some (Cli_fail Cannot_connect)))
               else (case send_request e (ce_write_ok e) (ce_reads e) (Req_Attach sid) of
                 (sent, None) \<Rightarrow> Inr (Inl (sent, [], None))
               | (sent, Some (Inl err)) \<Rightarrow> Inr (Inl (sent, [], Some (Cli_fail err)))
               | (sent, Some (Inr (AttachReady sid' cols rows child_pid shm_name snapshot))) \<Rightarrow>
                   bind_res (attach_ready e sid' cols rows child_pid shm_name) (\<lambda>(lines, r).
                     case r of
                       Inl err \<Rightarrow> Inr (Inl (sent, lines, Some (Cli_fail err)))
                     | Inr (master_fd, ring, mem) \<Rightarrow> Inr (Inr (sent, lines, sid, master_fd, ring, mem)))
               | (sent, Some (Inr (AttachDeny sid' reason))) \<Rightarrow>
                   Inr (Inl (sent, [Line_denied reason], Some (Cli_exit 1)))
               | (sent, Some (Inr (Resp_Error m))) \<Rightarrow> Inr (Inl (sent, [Line_error m], Some (Cli_exit 1)))
               | (sent, Some (Inr resp)) \<Rightarrow> Inr (Inl (sent, [Line_unexpected resp], Some Cli_ok)))))"

subsection \<open>\<open>main\<close>\<close>

text \<open>
  The commands that print and end; \<open>daemon\<close> and \<open>attach\<close> run on. An error that a command returns
  is reported and ends the process with status one.
\<close>

definition main_report :: "cli_run \<Rightarrow> bytes \<times> cli_line list \<times> nat option" where
  "main_report r =
     (case r of
        (sent, lines, None) \<Rightarrow> (sent, lines, None)
      | (sent, lines, Some Cli_ok) \<Rightarrow> (sent, lines, Some 0)
      | (sent, lines, Some (Cli_exit n)) \<Rightarrow> (sent, lines, Some n)
      | (sent, lines, Some (Cli_fail err)) \<Rightarrow> (sent, lines @ [Line_failure err], Some 1))"

datatype cli_mode = Run_daemon | Run_attach "string list" | Run_command cli_run

definition main_select :: "cli_env \<Rightarrow> string list \<Rightarrow> cli_mode" where
  "main_select e args =
     (if length args < 2 then Run_command ([], [Line_usage []], Some (Cli_exit 1))
      else let cmd = args ! 1; rest = drop 2 args in
        if cmd = ''daemon'' then Run_daemon
        else if cmd = ''create'' then Run_command (cmd_create e rest)
        else if cmd = ''attach'' then Run_attach rest
        else if cmd = ''detach'' then Run_command (cmd_detach e rest)
        else if cmd = ''list'' then Run_command (cmd_list e)
        else if cmd = ''kill'' then Run_command (cmd_kill e rest)
        else if cmd = ''ping'' then Run_command (cmd_ping e)
        else if cmd = ''shutdown'' then Run_command (cmd_shutdown e)
        else Run_command ([], [Line_usage []], Some (Cli_exit 1)))"

definition default_socket :: string where
  "default_socket = ''/tmp/eterm-daemon.sock''"

definition cli_socket_path :: "string option \<Rightarrow> string" where
  "cli_socket_path var = (case var of None \<Rightarrow> default_socket | Some p \<Rightarrow> p)"

end
