(* ===== verification/Cli_Props.thy ===== *)
theory Cli_Props
  imports Cli
begin

section \<open>The client's receive loop, its relay, and the client with the server\<close>

text \<open>
  The receive loop is independent of how the stream is cut, the interactive relay is complete,
  and a kill goes through from the command line to the shell.
\<close>

declare interactive_loop.simps [simp del]

subsection \<open>Receiving one response\<close>

lemma decode_part_of_message:
  assumes "length (to_vec m) < 2 ^ 32" "buf @ rest = encode_message to_vec m" "rest \<noteq> []"
  shows "try_decode_message f buf = None"
proof -
  have "buf = take (length buf) (encode_message to_vec m)"
    using assms(2) by (metis append_eq_conv_conj)
  moreover have "length buf < length (encode_message to_vec m)"
    using assms(2,3) by (metis length_append length_greater_0_conv less_add_same_cancel1)
  ultimately show ?thesis
    using try_decode_prefix [of to_vec m "length buf" f] assms(1) by simp
qed

text \<open>A message whose bytes all come is received, whatever the cuts and whatever follows it.\<close>

lemma recv_response_chunks:
  assumes "length (to_vec resp) < 2 ^ 32" "dec (to_vec resp) = Inr resp"
    and "buf @ concat chunks = encode_message to_vec resp @ later"
    and "length buf < length (encode_message to_vec resp)"
  shows "recv_response dec (map Sock_data chunks @ rs) buf = Some (Inr resp)"
  using assms(3,4)
proof (induction chunks arbitrary: buf)
  case Nil
  from Nil(1) have "length buf = length (encode_message to_vec resp) + length later"
    by (metis append_Nil2 concat.simps(1) length_append)
  with Nil(2) show ?case by simp
next
  case (Cons c cs)
  let ?m = "encode_message to_vec resp" and ?b = "buf @ c"
  have eq: "?b @ concat cs = ?m @ later" using Cons.prems(1) by simp
  then consider (whole) t where "?b = ?m @ t" | (partial) t where "?b @ t = ?m" "t \<noteq> []"
    unfolding append_eq_append_conv2 by (metis append_Nil2)
  then show ?case
  proof cases
    case (whole t)
    then have "try_decode_message dec ?b = Some (Inr resp, length ?m)"
      using try_decode_encode [of to_vec resp dec t] assms(1,2) by simp
    then show ?thesis by simp
  next
    case (partial t)
    then have "length ?b < length ?m" by (metis length_append length_greater_0_conv less_add_same_cancel1)
    moreover have "try_decode_message dec ?b = None"
      using decode_part_of_message [of to_vec resp ?b t dec] assms(1) partial by blast
    ultimately show ?thesis using Cons.IH [OF eq] by simp
  qed
qed

text \<open>
  The client gets its response however the stream cuts it: the result of the read loop is
  the first message of the stream, and it does not depend on the sizes of the reads nor on what
  follows. What follows is lost, if it came in the same read.
\<close>

theorem response_chunk_independent:
  assumes "length (to_vec resp) < 2 ^ 32" and "ce_from_slice e (to_vec resp) = Inr resp"
    and "concat chunks = encode_message to_vec resp @ later"
  shows "send_request e True (map Sock_data chunks @ rs) req =
     (encode_message (ce_to_vec e) req, Some (Inr resp))"
proof -
  have "0 < length (encode_message to_vec resp)" by (simp add: encode_message_length)
  with recv_response_chunks [of to_vec resp "ce_from_slice e" "[]" chunks later rs] assms show ?thesis
    by (simp add: send_request_def)
qed

text \<open>A codec of the responses of the examples.\<close>

definition demo_response_json :: "response \<Rightarrow> bytes" where
  "demo_response_json r = (case r of Killed sid \<Rightarrow> [1, 1] | Pong v n \<Rightarrow> [2] | _ \<Rightarrow> [3])"

definition demo_response_parse :: "bytes \<Rightarrow> string + response" where
  "demo_response_parse bs =
     (if bs = [1, 1] then Inr (Killed 7) else if bs = [2] then Inr (Pong 1 0) else Inl ''unknown variant'')"

definition demo_cli :: cli_env where
  "demo_cli = \<lparr>ce_connect = True, ce_write_ok = True, ce_reads = [], ce_to_vec = (\<lambda>r. [66]),
     ce_from_slice = demo_response_parse, ce_parse_uuid = (\<lambda>s. if s = ''7'' then Some 7 else None),
     ce_cwd = None, ce_recvmsg = (0, None), ce_shm = demo_shm, ce_polls = []\<rparr>"

theorem response_chunk_independent_witness:
  "snd (send_request demo_cli True (map Sock_data [[0, 0, 0], [2, 1], [1, 9, 9]]) Req_Ping) = Some (Inr (Killed 7))"
  using response_chunk_independent [of demo_response_json "Killed 7" demo_cli "[[0, 0, 0], [2, 1], [1, 9, 9]]" "[9, 9]" "[]" Req_Ping]
  by (simp add: demo_response_json_def demo_response_parse_def demo_cli_def encode_message_def Let_def be_bytes_4)

subsection \<open>The relay\<close>

definition relayed :: "poll_step list \<Rightarrow> bytes" where
  "relayed ps = concat (map (\<lambda>p. case pl_pty p of Some (Some d) \<Rightarrow> d | _ \<Rightarrow> []) ps)"

text \<open>A poll after which the loop does not go on.\<close>

definition poll_ends :: "poll_step \<Rightarrow> bool" where
  "poll_ends p \<longleftrightarrow> pl_ret p < 0 \<or> pl_stdin p = Some None \<or> (\<exists>d. pl_stdin p = Some (Some d) \<and> 0x1d \<in> set d) \<or>
     pl_pty p = Some None \<or> pl_hangup p"

lemma pty_step_result:
  assumes rep: "sr_rep (ring, ia_mem st) h" and room: "length h + length (relayed [p]) < 2 ^ 64"
  shows "\<exists>st'. pty_step ring p st = Inr st' \<and> sr_rep (ring, ia_mem st') (h @ relayed [p]) \<and>
     ia_stdout st' = ia_stdout st @ relayed [p] \<and> ia_to_pty st' = ia_to_pty st \<and> ia_sent st' = ia_sent st \<and>
     (ia_running st' \<longleftrightarrow> ia_running st \<and> pl_pty p \<noteq> Some None)"
proof (cases "\<exists>d. pl_pty p = Some (Some d)")
  case True
  then obtain d where d: "pl_pty p = Some (Some d)" by blast
  then have r: "relayed [p] = d" by (simp add: relayed_def)
  from shm_write_rep [OF rep] room r obtain m where "shm_write ring (ia_mem st) d = Inr m" "sr_rep (ring, m) (h @ d)"
    by auto
  with d r show ?thesis by (simp add: pty_step_def)
next
  case False
  then have "relayed [p] = []" by (auto simp: relayed_def split: option.split)
  with False rep show ?thesis by (auto simp: pty_step_def split: option.split)
qed

lemma interactive_step_result:
  assumes rep: "sr_rep (ring, ia_mem st) h" and room: "length h + length (relayed [p]) < 2 ^ 64"
    and run: "ia_running st" and wait: "stdin_step e sid p st \<noteq> None" and ok: "0 \<le> pl_ret p"
  shows "\<exists>st'. interactive_step e sid ring p st = Some (Inr st') \<and> sr_rep (ring, ia_mem st') (h @ relayed [p]) \<and>
     ia_stdout st' = ia_stdout st @ relayed [p] \<and> (ia_running st' \<longleftrightarrow> \<not> poll_ends p)"
proof -
  obtain st1 where st1: "stdin_step e sid p st = Some st1" using wait by blast
  then have s1: "ia_mem st1 = ia_mem st" "ia_stdout st1 = ia_stdout st"
      "ia_running st1 \<longleftrightarrow> \<not> (pl_stdin p = Some None \<or> (\<exists>d. pl_stdin p = Some (Some d) \<and> 0x1d \<in> set d))"
    using run by (auto simp: stdin_step_def split: option.splits if_splits prod.splits)
  from pty_step_result [of ring st1 h p] rep room s1(1) obtain st2 where st2: "pty_step ring p st1 = Inr st2"
      "sr_rep (ring, ia_mem st2) (h @ relayed [p])" "ia_stdout st2 = ia_stdout st1 @ relayed [p]"
      "ia_running st2 \<longleftrightarrow> ia_running st1 \<and> pl_pty p \<noteq> Some None"
    by auto
  with st1 s1 ok show ?thesis by (auto simp: interactive_step_def poll_ends_def)
qed

lemma interactive_loop_result:
  assumes "sr_rep (ring, ia_mem st) h" "length h + length (relayed (ps @ [p])) < 2 ^ 64" "ia_running st"
    and "\<And>q. q \<in> set ps \<Longrightarrow> \<not> poll_ends q" "poll_ends p" "0 \<le> pl_ret p"
    and wait: "\<And>st. stdin_step e sid p st \<noteq> None"
  shows "\<exists>st'. interactive_loop e sid ring (ps @ p # later) st = Some (Inr st') \<and>
     sr_rep (ring, ia_mem st') (h @ relayed (ps @ [p])) \<and> ia_stdout st' = ia_stdout st @ relayed (ps @ [p])"
  using assms(1-5)
proof (induction ps arbitrary: st h)
  case Nil
  from interactive_step_result [OF Nil(1) _ Nil(3) wait assms(6)] Nil(2,5) obtain st' where
      "interactive_step e sid ring p st = Some (Inr st')" "sr_rep (ring, ia_mem st') (h @ relayed [p])"
      "ia_stdout st' = ia_stdout st @ relayed [p]" "\<not> ia_running st'"
    by auto
  with Nil(3) assms(6) show ?case
    by (simp add: interactive_loop.simps [of e sid ring "p # later"] interactive_loop.simps [of e sid ring later])
next
  case (Cons q ps)
  have q: "\<not> poll_ends q" using Cons.prems(4) by simp
  then have "stdin_step e sid q st \<noteq> None" "0 \<le> pl_ret q"
    by (auto simp: stdin_step_def poll_ends_def split: option.splits)
  have rel: "relayed ((q # ps) @ [p]) = relayed [q] @ relayed (ps @ [p])" by (simp add: relayed_def)
  from interactive_step_result [OF Cons.prems(1) _ Cons.prems(3) \<open>stdin_step e sid q st \<noteq> None\<close> \<open>0 \<le> pl_ret q\<close>]
    Cons.prems(2) rel q obtain st1 where st1: "interactive_step e sid ring q st = Some (Inr st1)"
      "sr_rep (ring, ia_mem st1) (h @ relayed [q])" "ia_stdout st1 = ia_stdout st @ relayed [q]" "ia_running st1"
    by auto
  have "length (h @ relayed [q]) + length (relayed (ps @ [p])) < 2 ^ 64" using Cons.prems(2) rel by simp
  from Cons.IH [OF st1(2) this st1(4)] Cons.prems(4,5) obtain st' where
      "interactive_loop e sid ring (ps @ p # later) st1 = Some (Inr st')"
      "sr_rep (ring, ia_mem st') ((h @ relayed [q]) @ relayed (ps @ [p]))"
      "ia_stdout st' = ia_stdout st1 @ relayed (ps @ [p])"
    by auto
  with st1 rel Cons.prems(3) \<open>0 \<le> pl_ret q\<close> show ?case
    by (simp add: interactive_loop.simps [of e sid ring "q # ps @ p # later"])
qed



definition demo_poll :: "bytes option option \<Rightarrow> bytes option option \<Rightarrow> poll_step" where
  "demo_poll stdin pty = \<lparr>pl_ret = 1, pl_stdin = stdin, pl_detach_reads = [Sock_eof], pl_detach_write_ok = True,
     pl_write = 1, pl_pty = pty, pl_hangup = False\<rparr>"


subsection \<open>The client with the server\<close>

text \<open>One request that arrives whole on an idle connection, and is not an attach.\<close>

lemma single_request:
  assumes c: "get_client st fd = Some c" "c_read_buf c = []"
    and req: "try_decode_message (e_dec_request (E (length b))) b = Some (Inr req, length b)"
    and idle: "try_decode_message (e_dec_request (E (length b - 1))) [] = None" and b: "b \<noteq> []"
    and run: "handle_request (E (length b)) fd req (put_client fd (c\<lparr>c_read_buf := b\<rparr>) st) = Inr (resp, st2)"
    and resp: "\<And>k cs rs p n d. resp \<noteq> AttachReady k cs rs p n d"
    and c2: "get_client st2 fd = Some c2" "c_read_buf c2 = b"
  shows "handle_client_data E (Sock_data b) fd st =
     Inr (True, put_client fd (c2\<lparr>c_read_buf := []\<rparr>) (emit [Sock_write fd resp] st2))"
proof -
  let ?st = "put_client fd (c2\<lparr>c_read_buf := []\<rparr>) (emit [Sock_write fd resp] st2)"
  have "finish_attach e fd resp ?st = ?st" for e
    using resp by (auto simp: finish_attach_def split: response.split)
  moreover have "get_client ?st fd = Some (c2\<lparr>c_read_buf := []\<rparr>)" by (simp add: server_simps)
  moreover obtain n where "length b = Suc n" using b by (cases b) auto
  ultimately show ?thesis
    using c req run c2 idle
    by (simp add: handle_client_data_def Let_def server_simps answer_def send_response_def)
qed

lemma kill_runs:
  assumes "get_session st sid = Some s"
  shows "\<exists>st'. handle_kill e sid st = (Killed sid, st') \<and> get_session st' sid = None \<and>
     sv_clients st' = sv_clients st \<and> responses fd (sv_trace st') = responses fd (sv_trace st) \<and>
     (is_child_alive (e_alive e) s \<longrightarrow> Sig_kill (s_child_pid s) ''HUP'' \<in> set (sv_trace st'))"
proof -
  obtain st' where st': "handle_kill e sid st = (Killed sid, st')"
    using assms by (simp add: handle_kill_def sm_remove_def get_session_def sm_get_def Let_def split_beta)
  have "silent st st'"
    using handle_request_silent [of e fd "Req_Kill sid" st "Killed sid" st'] st' by (simp add: handle_request_def)
  moreover have "get_session st' sid = None" "sv_clients st' = sv_clients st"
    using st' assms
    by (auto simp: handle_kill_def sm_remove_def get_session_def sm_get_def Let_def split_beta emit_def
        notify_ended_def AList.delete_conv')
  moreover have "is_child_alive (e_alive e) s \<Longrightarrow> Sig_kill (s_child_pid s) ''HUP'' \<in> set (sv_trace st')"
    using st' assms
    by (auto simp: handle_kill_def sm_remove_def get_session_def sm_get_def Let_def split_beta emit_def
        session_cleanup_def)
  ultimately show ?thesis using st' silent_responses by blast
qed

text \<open>
  C34: \<open>pty-daemon kill\<close> from end to end. The bytes the client sends make the server remove the
  session and hang its shell up; the server's one response, however its bytes are cut on the
  way back, makes the client print the session and exit with status zero.
\<close>

theorem kill_end_to_end:
  assumes c: "get_client st fd = Some c" "c_read_buf c = []" and s: "get_session st sid = Some s"
    and cli: "ce_connect e" "ce_write_ok e" "ce_parse_uuid e a = Some sid"
    and to: "length (ce_to_vec e (Req_Kill sid)) < 2 ^ 32"
      "\<And>i. e_dec_request (E i) (ce_to_vec e (Req_Kill sid)) = Inr (Req_Kill sid)"
    and resp: "length (to_vec (Killed sid)) < 2 ^ 32" "ce_from_slice e (to_vec (Killed sid)) = Inr (Killed sid)"
      "ce_reads e = map Sock_data chunks" "concat chunks = encode_message to_vec (Killed sid)"
  shows "\<exists>sent st'. main_report (cmd_kill e [a]) = (sent, [Line_killed sid], Some 0) \<and>
     handle_client_data E (Sock_data sent) fd st = Inr (True, st') \<and>
     responses fd (sv_trace st') = responses fd (sv_trace st) @ [Killed sid] \<and>
     get_session st' sid = None \<and>
     (is_child_alive (e_alive (E (length sent))) s \<longrightarrow> Sig_kill (s_child_pid s) ''HUP'' \<in> set (sv_trace st'))"
proof -
  let ?b = "encode_message (ce_to_vec e) (Req_Kill sid)" and ?E = "E (length (encode_message (ce_to_vec e) (Req_Kill sid)))"
  let ?c = "c\<lparr>c_read_buf := ?b\<rparr>"
  have "recv_response (ce_from_slice e) (map Sock_data chunks) [] = Some (Inr (Killed sid))"
    using recv_response_chunks [of to_vec "Killed sid" "ce_from_slice e" "[]" chunks "[]" "[]"] resp
    by (simp add: encode_message_length)
  then have report: "main_report (cmd_kill e [a]) = (?b, [Line_killed sid], Some 0)"
    using cli resp(3) by (simp add: cmd_kill_def with_session_id_def with_response_def send_request_def main_report_def)
  have "get_session (put_client fd ?c st) sid = Some s" using s by (simp add: server_simps)
  from kill_runs [OF this, of ?E fd] obtain st2 where kill: "handle_kill ?E sid (put_client fd ?c st) = (Killed sid, st2)"
      "get_session st2 sid = None" "sv_clients st2 = sv_clients (put_client fd ?c st)"
      "responses fd (sv_trace st2) = responses fd (sv_trace (put_client fd ?c st))"
      "is_child_alive (e_alive ?E) s \<longrightarrow> Sig_kill (s_child_pid s) ''HUP'' \<in> set (sv_trace st2)"
    by blast
  have c2: "get_client st2 fd = Some ?c" using kill(3) by (simp add: get_client_def put_client_def AList.update_conv')
  have d: "try_decode_message (e_dec_request ?E) ?b = Some (Inr (Req_Kill sid), length ?b)"
    using try_decode_encode [of "ce_to_vec e" "Req_Kill sid" "e_dec_request ?E" "[]"] to by simp
  have "?b \<noteq> []" using encode_message_length [of "ce_to_vec e" "Req_Kill sid"] by auto
  moreover have "try_decode_message f [] = None" for f :: "bytes \<Rightarrow> string + request"
    by (simp add: try_decode_message_def)
  moreover have "handle_request ?E fd (Req_Kill sid) (put_client fd ?c st) = Inr (Killed sid, st2)"
    using kill(1) by (simp add: handle_request_def)
  ultimately have "handle_client_data E (Sock_data ?b) fd st =
      Inr (True, put_client fd (?c\<lparr>c_read_buf := []\<rparr>) (emit [Sock_write fd (Killed sid)] st2))"
    using single_request [where E = E, OF c d _ _ _ _ c2] by simp
  moreover have "sv_trace (put_client fd c' (emit cs st2)) = sv_trace st2 @ cs" "sv_trace (put_client fd c' st) = sv_trace st" for c' cs
    by (simp_all add: put_client_def emit_def)
  ultimately show ?thesis
    using report kill(2,4,5) by (auto simp: server_simps responses_def)
qed

theorem kill_end_to_end_witness:
  "\<exists>st'. handle_client_data (\<lambda>i. demo_env\<lparr>e_dec_request := (\<lambda>b. Inr (Req_Kill 7))\<rparr>) (Sock_data [0, 0, 0, 1, 66]) 10
     demo_created = Inr (True, st') \<and> get_session st' 7 = None"
proof -
  obtain s where s: "get_session demo_created 7 = Some s" "sv_clients demo_created = [(10, \<lparr>c_stream = 10, c_read_buf = []\<rparr>)]"
    using demo_created_eq by auto
  then have c: "get_client demo_created 10 = Some \<lparr>c_stream = 10, c_read_buf = []\<rparr>" by (simp add: get_client_def)
  let ?e = "demo_cli\<lparr>ce_reads := map Sock_data [[0, 0, 0, 2], [1, 1]]\<rparr>"
  let ?E = "\<lambda>i::nat. demo_env\<lparr>e_dec_request := (\<lambda>b. Inr (Req_Kill 7))\<rparr>"
  have "main_report (cmd_kill ?e [''7'']) = ([0, 0, 0, 1, 66], [Line_killed 7], Some 0)"
    by (simp add: cmd_kill_def with_session_id_def with_response_def send_request_def main_report_def demo_cli_def
        encode_message_def Let_def be_bytes_4 try_decode_message_def be_nat_def demo_response_parse_def)
  then show ?thesis
    using kill_end_to_end [OF c _ s(1), of ?e "''7''" ?E demo_response_json "[[0, 0, 0, 2], [1, 1]]"]
    by (auto simp: demo_cli_def demo_response_json_def demo_response_parse_def encode_message_def Let_def be_bytes_4)
qed

end
