(* ===== verification/Daemon.thy ===== *)
theory Daemon
  imports Server_Total
begin

section \<open>The life of the daemon (\<open>Server::new\<close>, \<open>run\<close>, \<open>Drop\<close>, \<open>cmd_daemon\<close>)\<close>

text \<open>
  The parts of the server put together: the system calls of \<open>new\<close>, the head of \<open>run\<close>, the loop
  over its turns with what other threads and processes do between them, and the two ways out,
  by \<open>cleanup\<close> or by an error, both of which end with the server being dropped.
\<close>

subsection \<open>Starting\<close>

record new_os =
  no_exists :: bool
  no_remove_ok :: bool
  no_create_dir_ok :: bool
  no_bind :: "fd option"
  no_nonblocking_ok :: bool
  no_permissions_ok :: bool
  no_pipe :: "(fd \<times> fd) option"
  no_now :: instant

text \<open>\<open>Server::new\<close>: the calls it made before it failed, or the server.\<close>

definition server_new_checked :: "new_os \<Rightarrow> string \<Rightarrow> sys_call list + server" where
  "server_new_checked os path =
     (let removal = (if no_exists os \<and> no_remove_ok os then [File_remove path] else []) in
      if no_exists os \<and> \<not> no_remove_ok os then Inl []
      else if \<not> no_create_dir_ok os then Inl removal
      else (case no_bind os of
              None \<Rightarrow> Inl removal
            | Some listener \<Rightarrow>
                if \<not> no_nonblocking_ok os \<or> \<not> no_permissions_ok os
                then Inl (removal @ [Fd_open listener, Fd_close listener])
                else let st = server_new path listener (no_pipe os) (no_now os)
                     in Inr (st\<lparr>sv_trace := removal @ sv_trace st\<rparr>)))"

text \<open>
  The head of \<open>run\<close>. Its four calls (\<open>kqueue\<close>, the two registrations, the signals) answer in
  turn; the first that fails ends \<open>run\<close>. With all of them it is \<open>server_start\<close>.
\<close>

definition run_start :: "(nat \<Rightarrow> bool) \<Rightarrow> server \<Rightarrow> bool \<times> server" where
  "run_start call_ok st =
     (if \<not> call_ok 0 \<or> \<not> call_ok 1 then (False, st)
      else let st = emit [Kq_add (sv_listener_fd st)] st in
        (case sv_ws_wakeup_pipe st of
           None \<Rightarrow> (call_ok 3, st)
         | Some (rfd, wfd) \<Rightarrow>
             if \<not> call_ok 2 then (False, st) else (call_ok 3, emit [Kq_add rfd] st)))"

subsection \<open>The loop\<close>

text \<open>
  A turn with what happened since the one before: what the connection tasks left in the shared
  WebSocket state, and what local clients wrote to the rings of sessions.
\<close>

record turn =
  t_ws :: "ws_shared option"
  t_writes :: "(uuid \<times> bytes) list"
  t_env :: env
  t_cmds :: "(env \<times> ws_command) list"
  t_disconnected :: bool
  t_result :: kevent_result

definition client_write :: "uuid \<times> bytes \<Rightarrow> server \<Rightarrow> server" where
  "client_write p st =
     (case get_session st (fst p) of
        None \<Rightarrow> st
      | Some s \<Rightarrow>
          (case shm_write (s_shared_ring s) (s_ring_mem s) (snd p) of
             Inl f \<Rightarrow> st
           | Inr mem \<Rightarrow> put_session (fst p) (s\<lparr>s_ring_mem := mem\<rparr>) st))"

definition interfere :: "turn \<Rightarrow> server \<Rightarrow> server" where
  "interfere t st =
     fold client_write (t_writes t) (case t_ws t of None \<Rightarrow> st | Some w \<Rightarrow> st\<lparr>sv_ws_shared := w\<rparr>)"

text \<open>\<open>while self.running\<close>; \<open>None\<close> when the given turns do not end it.\<close>

fun run_loop :: "turn list \<Rightarrow> server \<Rightarrow> (bool \<times> server) res option" where
  "run_loop ts st =
     (if \<not> sv_running st then Some (Inr (True, st))
      else (case ts of
              [] \<Rightarrow> None
            | t # ts \<Rightarrow>
                (case loop_turn (t_env t) (t_cmds t) (t_disconnected t) (t_result t) (interfere t st) of
                   Inl f \<Rightarrow> Some (Inl f)
                 | Inr (False, st) \<Rightarrow> Some (Inr (False, st))
                 | Inr (True, st) \<Rightarrow> run_loop ts st)))"

definition server_run :: "(nat \<Rightarrow> bool) \<Rightarrow> env \<Rightarrow> turn list \<Rightarrow> server \<Rightarrow> (bool \<times> server) res option" where
  "server_run call_ok e ts st =
     (case run_start call_ok st of
        (False, st) \<Rightarrow> Some (Inr (False, st))
      | (True, st) \<Rightarrow>
          (case run_loop ts st of
             Some (Inr (True, st)) \<Rightarrow> Some (Inr (True, server_cleanup e st))
           | r \<Rightarrow> r))"

subsection \<open>The end\<close>

text \<open>\<open>Drop for Server\<close>, then the fields: the listener and the clients' streams close.\<close>

definition server_drop :: "env \<Rightarrow> server \<Rightarrow> server" where
  "server_drop e st =
     (let st = server_cleanup e st in
      emit (Fd_close (sv_listener_fd st) # map (\<lambda>(fd, c). Fd_close (c_stream c)) (sv_clients st))
        (st\<lparr>sv_clients := []\<rparr>))"

text \<open>
  \<open>cmd_daemon\<close>: how it ended, all the system calls made, and the server as it was dropped. The
  environments \<open>e1\<close> and \<open>e2\<close> are those of the cleanup in \<open>run\<close> and of the one in \<open>drop\<close>.
\<close>

definition cmd_daemon ::
  "new_os \<Rightarrow> (nat \<Rightarrow> bool) \<Rightarrow> env \<Rightarrow> env \<Rightarrow> turn list \<Rightarrow> string \<Rightarrow>
   (bool \<times> sys_call list \<times> server option) res option" where
  "cmd_daemon os call_ok e1 e2 ts path =
     (case server_new_checked os path of
        Inl calls \<Rightarrow> Some (Inr (False, calls, None))
      | Inr st \<Rightarrow>
          (case server_run call_ok e1 ts st of
             None \<Rightarrow> None
           | Some (Inl f) \<Rightarrow> Some (Inl f)
           | Some (Inr (ok, st)) \<Rightarrow>
               let st = server_drop e2 st in Some (Inr (ok, sv_trace st, Some st))))"

subsection \<open>Between the turns\<close>

lemma client_write_inv: "sv_inv st \<Longrightarrow> sv_inv (client_write p st)"
proof (cases "get_session st (fst p)")
  case None
  then show "sv_inv st \<Longrightarrow> ?thesis" by (simp add: client_write_def)
next
  case (Some s)
  assume inv: "sv_inv st"
  then have "sv_core (put_session (fst p) (s\<lparr>s_ring_mem := m\<rparr>) st)" for m
    using Some by (intro sv_core_put_quiet [where s = s]) (simp_all add: sv_inv_def)
  with Some inv show ?thesis
    by (auto simp: client_write_def sv_inv_def server_simps split: sum.split)
qed

lemma client_write_rings:
  assumes ok: "rings_ok (length (snd p) + n) (rings st)"
  shows "rings_ok n (rings (client_write p st))"
proof (cases "get_session st (fst p)")
  case None
  with rings_ok_less [OF ok] show ?thesis by (simp add: client_write_def)
next
  case (Some s)
  obtain h where h: "sr_rep (s_shared_ring s, s_ring_mem s) h" "length h + (length (snd p) + n) < 2 ^ 64"
    using rings_okD [OF ok Some] by blast
  then have "length h + length (snd p) < 2 ^ 64" by linarith
  from shm_write_rep [OF h(1) this] obtain m where m: "shm_write (s_shared_ring s) (s_ring_mem s) (snd p) = Inr m"
    "sr_rep (s_shared_ring s, m) (h @ snd p)" by blast
  have "rings_ok n ((rings st)(fst p \<mapsto> ring_of (s\<lparr>s_ring_mem := m\<rparr>)))"
    using m(2) h(2) by (intro rings_ok_upd [OF rings_ok_less [OF ok], of _ "h @ snd p"]) (simp_all add: ring_of_def)
  with m(1) Some show ?thesis by (simp add: client_write_def rings_put)
qed

lemma client_writes_inv: "sv_inv st \<Longrightarrow> sv_inv (fold client_write ps st)"
  by (induction ps arbitrary: st) (simp_all add: client_write_inv)

lemma client_writes_rings:
  "rings_ok (sum_list (map (length \<circ> snd) ps) + n) (rings st) \<Longrightarrow> rings_ok n (rings (fold client_write ps st))"
proof (induction ps arbitrary: st)
  case Nil
  then show ?case by simp
next
  case (Cons p ps)
  then have "rings_ok (sum_list (map (length \<circ> snd) ps) + n) (rings (client_write p st))"
    by (intro client_write_rings) (simp add: add.assoc comp_def)
  from Cons.IH [OF this] show ?case by simp
qed

text \<open>What a turn may assume, and how much it can add to the rings.\<close>

definition turn_ok :: "turn \<Rightarrow> bool" where
  "turn_ok t \<longleftrightarrow> turn_env_ok (t_env t) (t_cmds t) (t_result t) \<and> turn_env (t_env t) (t_cmds t) (t_result t)"

definition turn_room :: "turn \<Rightarrow> nat" where
  "turn_room t = sum_list (map (length \<circ> snd) (t_writes t)) + turn_bytes (t_result t)"

lemma interfere_sound:
  assumes "sv_inv st"
  shows "sv_inv (interfere t st)"
    and "rings_ok (sum_list (map (length \<circ> snd) (t_writes t)) + n) (rings st) \<Longrightarrow> rings_ok n (rings (interfere t st))"
proof -
  have "rings (st\<lparr>sv_ws_shared := w\<rparr>) = rings st" for w by (simp add: rings_def get_session_def fun_eq_iff)
  then show "sv_inv (interfere t st)"
    "rings_ok (sum_list (map (length \<circ> snd) (t_writes t)) + n) (rings st) \<Longrightarrow> rings_ok n (rings (interfere t st))"
    using assms by (auto simp: interfere_def client_writes_inv client_writes_rings split: option.split)
qed

lemma run_turn:
  assumes inv: "sv_inv st" and ok: "rings_ok (turn_room t + n) (rings st)" and t: "turn_ok t"
  shows "\<exists>b st'. loop_turn (t_env t) (t_cmds t) (t_disconnected t) (t_result t) (interfere t st) = Inr (b, st') \<and>
     sv_inv st' \<and> rings_ok n (rings st')"
proof -
  have "rings_ok (turn_bytes (t_result t) + n) (rings (interfere t st))"
    using ok by (intro interfere_sound(2) [OF inv]) (simp add: turn_room_def add.assoc)
  with turn_total [OF interfere_sound(1) [OF inv] this] t obtain b st' where
      run: "loop_turn (t_env t) (t_cmds t) (t_disconnected t) (t_result t) (interfere t st) = Inr (b, st')"
        "rings_ok n (rings st')"
    unfolding turn_ok_def by blast
  have "sv_inv st'"
    using t by (intro loop_turn_inv [OF interfere_sound(1) [OF inv] _ run(1)]) (simp add: turn_ok_def)
  with run show ?thesis by blast
qed

declare run_loop.simps [simp del]

text \<open>Progress and preservation along the whole loop.\<close>

lemma run_loop_steps:
  assumes "sv_inv st" "rings_ok (sum_list (map turn_room ts) + n) (rings st)" "\<forall>t \<in> set ts. turn_ok t"
  shows "case run_loop ts st of
       None \<Rightarrow> True
     | Some (Inl f) \<Rightarrow> False
     | Some (Inr (ok, st')) \<Rightarrow> sv_inv st' \<and> rings_ok n (rings st') \<and> (ok \<longrightarrow> \<not> sv_running st')"
  using assms
proof (induction ts arbitrary: st)
  case Nil
  then show ?case by (simp add: run_loop.simps rings_ok_less)
next
  case (Cons t ts)
  show ?case
  proof (cases "sv_running st")
    case False
    with Cons.prems show ?thesis by (auto simp: run_loop.simps intro: rings_ok_less)
  next
    case True
    have "rings_ok (turn_room t + (sum_list (map turn_room ts) + n)) (rings st)"
      using Cons.prems(2) by (simp add: add.assoc)
    from run_turn [OF Cons.prems(1) this] Cons.prems(3) obtain b st' where
        t: "loop_turn (t_env t) (t_cmds t) (t_disconnected t) (t_result t) (interfere t st) = Inr (b, st')"
          "sv_inv st'" "rings_ok (sum_list (map turn_room ts) + n) (rings st')"
      by auto
    with True Cons.IH [OF t(2,3)] Cons.prems(3) rings_ok_less [OF t(3)] show ?thesis
      by (cases b) (simp_all add: run_loop.simps [of "t # ts"])
  qed
qed

text \<open>A turn whose first event is a signal ends the loop.\<close>

definition signalled :: "turn \<Rightarrow> bool" where
  "signalled t \<longleftrightarrow> (case t_result t of Kev_events ((E, ev) # evs) \<Rightarrow> ev_filter ev = Filt_signal | _ \<Rightarrow> False)"

lemma signal_stops:
  assumes "signalled t" "loop_turn e cmds disc (t_result t) st = Inr (b, st')"
  shows "\<not> sv_running st'"
proof -
  from assms(1) obtain E ev evs where r: "t_result t = Kev_events ((E, ev) # evs)" "ev_filter ev = Filt_signal"
    by (auto simp: signalled_def split: kevent_result.splits list.splits prod.splits)
  then have d: "dispatch_events ((E, ev) # evs) st1 = Inr (True, st1\<lparr>sv_running := False\<rparr>)" for st1
    by (simp add: dispatch_event_def Let_def)
  obtain st1 where st1: "drain_ws_commands cmds disc (reap_sessions e st) = Inr st1"
    using assms(2) by (auto simp: loop_turn_def bind_res_Inr_iff)
  obtain go st2 where i: "idle_check (e_now e) st1 = (go, st2)" by fastforce
  show ?thesis
  proof (cases go)
    case True
    with assms(2) r(1) st1 i have "Inr (b, st') = dispatch_events ((E, ev) # evs) st2"
      by (simp add: loop_turn_def del: dispatch_events.simps)
    then show ?thesis unfolding d by simp
  next
    case False
    with i have "\<not> sv_running st2" by (auto simp: idle_check_def Let_def split: option.splits if_splits)
    with assms(2) st1 i False show ?thesis by (simp add: loop_turn_def)
  qed
qed

lemma run_loop_stops: "t \<in> set ts \<Longrightarrow> signalled t \<Longrightarrow> run_loop ts st \<noteq> None"
proof (induction ts arbitrary: st)
  case Nil
  then show ?case by simp
next
  case (Cons t' ts)
  note loop = run_loop.simps [of "x # xs" for x xs]
  consider (here) "t' = t" | (later) "t \<in> set ts" using Cons.prems(1) by auto
  then show ?case
  proof cases
    case here
    have "run_loop ts st' = Some (Inr (True, st'))" if "\<not> sv_running st'" for st'
      using that by (simp add: run_loop.simps)
    with signal_stops [OF Cons.prems(2)] here show ?thesis
      by (cases "loop_turn (t_env t) (t_cmds t) (t_disconnected t) (t_result t) (interfere t st)")
        (auto simp: loop split: bool.split)
  next
    case later
    with Cons.IH Cons.prems(2) show ?thesis
      by (auto simp: loop split: sum.split prod.split bool.split)
  qed
qed

subsection \<open>Starting and dropping\<close>

lemma kern_run_closes:
  "distinct fds \<Longrightarrow> set fds = op \<Longrightarrow> w \<subseteq> op \<Longrightarrow> kern_run (op, w) (map Fd_close fds) = Some ({}, {})"
proof (induction fds arbitrary: op w)
  case Nil
  then show ?case by simp
next
  case (Cons fd fds)
  then have "kern_run (op - {fd}, w - {fd}) (map Fd_close fds) = Some ({}, {})"
    by (intro Cons.IH) auto
  with Cons.prems show ?case by auto
qed

lemma kill_all_kept:
  "sv_clients (fold (kill_session e) ids st) = sv_clients st"
  "sv_listener_fd (fold (kill_session e) ids st) = sv_listener_fd st"
  by (induction ids arbitrary: st) (simp_all add: kill_session_kept)

lemma cleanup_kept:
  "sv_clients (server_cleanup e st) = sv_clients st" "sv_listener_fd (server_cleanup e st) = sv_listener_fd st"
  by (simp_all add: server_cleanup_def Let_def emit_def kill_all_kept notify_all_kept split: option.split)

text \<open>What has to hold when the server is dropped: only the listener and the clients are open.\<close>

lemma drop_closes:
  assumes "kern_run ({}, {}) (sv_trace (server_cleanup e st)) = Some (insert (sv_listener_fd st) {fd. get_client st fd \<noteq> None}, w)"
    and "w \<subseteq> insert (sv_listener_fd st) {fd. get_client st fd \<noteq> None}"
    and "distinct (sv_listener_fd st # map fst (sv_clients st))" "\<forall>(fd, c) \<in> set (sv_clients st). c_stream c = fd"
  shows "kern_run ({}, {}) (sv_trace (server_drop e st)) = Some ({}, {})"
proof -
  have "map (\<lambda>(fd, c). Fd_close (c_stream c)) (sv_clients st) = map Fd_close (map fst (sv_clients st))"
    using assms(4) by auto
  then have "sv_trace (server_drop e st) =
      sv_trace (server_cleanup e st) @ map Fd_close (sv_listener_fd st # map fst (sv_clients st))"
    by (simp add: server_drop_def Let_def cleanup_kept) (simp add: emit_def)
  moreover have "kern_run (insert (sv_listener_fd st) {fd. get_client st fd \<noteq> None}, w)
      (map Fd_close (sv_listener_fd st # map fst (sv_clients st))) = Some ({}, {})"
    using assms(2) by (intro kern_run_closes [OF assms(3)]) (auto simp: get_client_def map_of_eq_None_iff)
  ultimately show ?thesis using assms(1) by (simp add: kern_run_append)
qed

text \<open>The state of a server that has been dropped.\<close>

definition all_gone :: "server \<Rightarrow> bool" where
  "all_gone st \<longleftrightarrow> sv_sessions st = [] \<and> sv_clients st = [] \<and> sv_pending_dup_fds st = [] \<and>
     subscribers (sv_ws_shared st) = [] \<and> kern_run ({}, {}) (sv_trace st) = Some ({}, {})"

lemma drop_gone:
  assumes c: "sv_sessions (server_cleanup e st) = []" "sv_pending_dup_fds (server_cleanup e st) = []"
      "subscribers (sv_ws_shared (server_cleanup e st)) = []"
    and k: "kern_run ({}, {}) (sv_trace (server_drop e st)) = Some ({}, {})"
  shows "all_gone (server_drop e st)"
  using k c by (simp add: all_gone_def server_drop_def Let_def) (simp add: emit_def)

lemma sv_inv_clients:
  assumes "sv_inv st"
  shows "distinct (sv_listener_fd st # map fst (sv_clients st))" "\<forall>(fd, c) \<in> set (sv_clients st). c_stream c = fd"
proof -
  have wf: "sv_wf st" using assms by (simp add: sv_inv_def sv_core_def)
  then show d: "distinct (sv_listener_fd st # map fst (sv_clients st))"
    by (auto simp: sv_wf_def fd_list_def new_fds_def)
  have "get_client st fd = Some c" if "(fd, c) \<in> set (sv_clients st)" for fd c
    using d that by (simp add: get_client_def)
  with wf show "\<forall>(fd, c) \<in> set (sv_clients st). c_stream c = fd" by (auto simp: sv_wf_def)
qed

text \<open>Dropped with its invariant, or dropped after \<open>cleanup\<close> ran once.\<close>

lemma drop_inv_gone: "sv_inv st \<Longrightarrow> all_gone (server_drop e st)"
  using cleanup_releases [OF _ refl, of st e] sv_inv_clients [of st]
  by (intro drop_gone drop_closes [OF _ order_refl]) simp_all

lemma drop_cleaned_gone:
  assumes "sv_inv st"
  shows "all_gone (server_drop e2 (server_cleanup e1 st))"
proof -
  let ?st = "server_cleanup e1 st"
  note c = cleanup_releases [OF assms refl, of e1]
  then have again: "server_cleanup e2 ?st = emit [File_remove (sv_socket_path ?st)] ?st" by blast
  have same: "get_client ?st = get_client st" by (simp add: get_client_def cleanup_kept fun_eq_iff)
  have "kern_run ({}, {}) (sv_trace (server_drop e2 ?st)) = Some ({}, {})"
    using c again sv_inv_clients [OF assms]
    by (intro drop_closes [OF _ order_refl]) (simp_all add: cleanup_kept same, simp add: emit_def kern_run_append)
  then show ?thesis
    using c again by (intro drop_gone) (simp_all, simp_all add: emit_def)
qed

text \<open>A server that \<open>run\<close> has not touched, whatever quiet calls were made before it.\<close>

lemma fresh_server:
  assumes new: "server_new_checked os path = Inr st"
    and fds: "\<And>l. no_bind os = Some l \<Longrightarrow> distinct (new_fds l (no_pipe os))"
  obtains l where "sv_sessions st = []" "sv_clients st = []" "sv_pending_dup_fds st = []" "sv_ws_shared st = ws_new"
    "sv_listener_fd st = l" "sv_ws_wakeup_pipe st = no_pipe os" "distinct (new_fds l (no_pipe os))"
    "kern_run ({}, {}) (sv_trace st) = Some (set (new_fds l (no_pipe os)), {})"
proof -
  define removal where "removal = (if no_exists os \<and> no_remove_ok os then [File_remove path] else [])"
  from new obtain l where l: "no_bind os = Some l"
    and st: "st = (server_new path l (no_pipe os) (no_now os))
      \<lparr>sv_trace := removal @ sv_trace (server_new path l (no_pipe os) (no_now os))\<rparr>"
    unfolding removal_def by (auto simp: server_new_checked_def Let_def split: if_splits option.splits)
  have "kern_run ({}, {}) removal = Some ({}, {})" by (simp add: removal_def)
  moreover have "kern_run ({}, {}) (map Fd_open (new_fds l (no_pipe os))) = Some (set (new_fds l (no_pipe os)), {})"
    using kern_run_opens [OF fds [OF l], of "{}"] by simp
  ultimately have "kern_run ({}, {}) (sv_trace st) = Some (set (new_fds l (no_pipe os)), {})"
    unfolding st by (simp add: server_new_def kern_run_append)
  with that [of l] fds [OF l] show thesis by (simp add: st server_new_def)
qed

lemma run_start_fields:
  assumes "run_start call_ok st = (ok, st')"
  shows "\<exists>cs. st' = emit cs st \<and> (\<forall>c \<in> set cs. \<exists>fd. c = Kq_add fd \<and>
     (fd = sv_listener_fd st \<or> (\<exists>wfd. sv_ws_wakeup_pipe st = Some (fd, wfd)))) \<and>
     (ok \<longrightarrow> cs = Kq_add (sv_listener_fd st) #
        (case sv_ws_wakeup_pipe st of None \<Rightarrow> [] | Some (rfd, wfd) \<Rightarrow> [Kq_add rfd]))"
proof (cases "call_ok 0 \<and> call_ok 1")
  case False
  with assms show ?thesis by (intro exI [of _ "[]"]) (auto simp: run_start_def)
next
  case True
  show ?thesis
  proof (cases "sv_ws_wakeup_pipe st")
    case None
    with assms True show ?thesis
      by (intro exI [of _ "[Kq_add (sv_listener_fd st)]"]) (simp add: run_start_def emit_def)
  next
    case (Some p)
    obtain rfd wfd where p: "p = (rfd, wfd)" by (cases p)
    show ?thesis
    proof (cases "call_ok 2")
      case False
      with assms True Some p show ?thesis
        by (intro exI [of _ "[Kq_add (sv_listener_fd st)]"]) (simp add: run_start_def emit_def)
    next
      case ok2: True
      with assms True Some p show ?thesis
        by (intro exI [of _ "[Kq_add (sv_listener_fd st), Kq_add rfd]"]) (simp add: run_start_def emit_def)
    qed
  qed
qed

lemma kern_run_adds:
  "\<forall>c \<in> set cs. \<exists>fd \<in> op. c = Kq_add fd \<Longrightarrow>
   kern_run (op, w) cs = Some (op, w \<union> {fd. Kq_add fd \<in> set cs})"
proof (induction cs arbitrary: w)
  case Nil
  then show ?case by simp
next
  case (Cons c cs)
  then obtain fd where fd: "c = Kq_add fd" "fd \<in> op" by auto
  with Cons.IH [of "insert fd w"] Cons.prems have
    "kern_run (op, w) (c # cs) = Some (op, insert fd w \<union> {fd. Kq_add fd \<in> set cs})" by simp
  moreover have "insert fd w \<union> {fd. Kq_add fd \<in> set cs} = w \<union> {fd. Kq_add fd \<in> set (c # cs)}"
    using fd(1) by auto
  ultimately show ?case by simp
qed

text \<open>The two outcomes of the head of \<open>run\<close>.\<close>

lemma started:
  assumes new: "server_new_checked os path = Inr st"
    and fds: "\<And>l. no_bind os = Some l \<Longrightarrow> distinct (new_fds l (no_pipe os))"
    and run: "run_start call_ok st = (ok, st')"
  shows "ok \<Longrightarrow> sv_inv st' \<and> rings st' = Map.empty" and "all_gone (server_drop e st')"
proof -
  obtain l where st: "sv_sessions st = []" "sv_clients st = []" "sv_pending_dup_fds st = []" "sv_ws_shared st = ws_new"
    "sv_listener_fd st = l" "sv_ws_wakeup_pipe st = no_pipe os" and d: "distinct (new_fds l (no_pipe os))"
    and k: "kern_run ({}, {}) (sv_trace st) = Some (set (new_fds l (no_pipe os)), {})"
    by (rule fresh_server [OF new fds])
  obtain cs where cs: "st' = emit cs st" "\<forall>c \<in> set cs. \<exists>fd. c = Kq_add fd \<and>
      (fd = l \<or> (\<exists>wfd. no_pipe os = Some (fd, wfd)))"
    "ok \<longrightarrow> cs = Kq_add l # (case no_pipe os of None \<Rightarrow> [] | Some (rfd, wfd) \<Rightarrow> [Kq_add rfd])"
    using run_start_fields [OF run, unfolded st(5,6)] by (elim exE conjE) (rule that)
  let ?fds = "set (new_fds l (no_pipe os))" and ?w = "{fd. Kq_add fd \<in> set cs}"
  have adds: "\<forall>c \<in> set cs. \<exists>fd \<in> ?fds. c = Kq_add fd"
    using cs(2) by (fastforce simp: new_fds_def)
  have w: "?w \<subseteq> insert l {fd. \<exists>wfd. no_pipe os = Some (fd, wfd)}" using cs(2) by auto
  have k': "kern_run ({}, {}) (sv_trace st') = Some (?fds, ?w)"
    using k kern_run_adds [OF adds, of "{}"] by (simp add: cs(1) emit_def kern_run_append)
  have f: "sv_sessions st' = []" "sv_clients st' = []" "sv_pending_dup_fds st' = []" "sv_ws_shared st' = ws_new"
    "sv_listener_fd st' = l" "sv_ws_wakeup_pipe st' = no_pipe os" "sv_trace st' = sv_trace st @ cs"
    using st cs(1) by (simp_all add: emit_def)
  have none: "get_session st' k = None" "get_client st' fd = None" for k fd
    using f(1,2) by (simp_all add: get_session_def sm_get_def get_client_def)
  show "sv_inv st' \<and> rings st' = Map.empty" if ok
  proof -
    have "fd_list st' = new_fds l (no_pipe os)" using f by (simp add: fd_list_def)
    moreover have "?w = watch_set st'"
      using cs(3) that none f(5,6) by (auto simp: watch_set_def split: option.splits)
    ultimately have "sv_wf st'" "kernel_agrees st'"
      using none f(1) d k' by (simp_all add: sv_wf_def kernel_agrees_def open_fds_def)
    then show ?thesis using f(3) none by (simp add: sv_inv_def sv_core_def rings_def fun_eq_iff)
  qed
  let ?c = "case no_pipe os of None \<Rightarrow> [] | Some (rfd, wfd) \<Rightarrow> [Fd_close rfd, Fd_close wfd]"
  have clean: "sv_trace (server_cleanup e st') = sv_trace st' @ ?c @ [File_remove (sv_socket_path st')]"
      "sv_sessions (server_cleanup e st') = []" "sv_pending_dup_fds (server_cleanup e st') = []"
      "sv_ws_shared (server_cleanup e st') = ws_new"
    using f by (auto simp: server_cleanup_def Let_def sm_list_def ws_new_def emit_def split: option.split)
  have "\<exists>w'. kern_run (?fds, ?w) (?c @ [File_remove p]) = Some ({l}, w') \<and> w' \<subseteq> {l}" for p
    using d w by (cases "no_pipe os") (auto simp: new_fds_def)
  then obtain w' where "kern_run (?fds, ?w) (?c @ [File_remove (sv_socket_path st')]) = Some ({l}, w')" "w' \<subseteq> {l}"
    by blast
  with k' have "kern_run ({}, {}) (sv_trace (server_cleanup e st')) = Some ({l}, w')" "w' \<subseteq> {l}"
    unfolding clean(1) by (simp_all add: kern_run_append)
  then have "kern_run ({}, {}) (sv_trace (server_drop e st')) = Some ({}, {})"
    using none f(2,5) by (intro drop_closes [of e st' w']) simp_all
  then show "all_gone (server_drop e st')"
    using clean by (intro drop_gone) (simp_all add: ws_new_def)
qed


definition demo_new :: new_os where
  "demo_new = \<lparr>no_exists = True, no_remove_ok = True, no_create_dir_ok = True, no_bind = Some 5,
     no_nonblocking_ok = True, no_permissions_ok = True, no_pipe = Some (6, 8), no_now = 0\<rparr>"

definition demo_turn_of :: "kevent_result \<Rightarrow> turn" where
  "demo_turn_of r = \<lparr>t_ws = None, t_writes = [], t_env = demo_env, t_cmds = [], t_disconnected = False, t_result = r\<rparr>"


subsection \<open>The idle exit\<close>

text \<open>A turn in which nothing happens.\<close>

definition quiet :: "turn \<Rightarrow> bool" where
  "quiet t \<longleftrightarrow> t_ws t = None \<and> t_writes t = [] \<and> t_cmds t = [] \<and> \<not> t_disconnected t \<and> t_result t = Kev_events []"

definition unused :: "server \<Rightarrow> bool" where
  "unused st \<longleftrightarrow> sv_sessions st = [] \<and> sv_clients st = [] \<and> client_sessions (sv_ws_shared st) = []"

lemma quiet_turn:
  assumes "unused st" "quiet t" "sv_idle_since st = Some since"
  shows "loop_turn (t_env t) (t_cmds t) (t_disconnected t) (t_result t) (interfere t st) =
     Inr (True, if idle_timeout \<le> e_now (t_env t) - since then st\<lparr>sv_running := False\<rparr> else st)"
proof -
  have "sv_sessions st = []" "sv_clients st = []" "client_sessions (sv_ws_shared st) = []"
    using assms(1) by (simp_all add: unused_def)
  moreover from this have "reap_sessions e st = st" for e
    by (simp add: reap_sessions_def reap_dead_def emit_def)
  ultimately show ?thesis
    using assms(2,3)
    by (simp add: loop_turn_def interfere_def quiet_def drain_ws_commands_def idle_check_def sm_count_def)
qed

text \<open>
  C29: an unused daemon exits, and not too early. With no session, no client and no remote viewer,
  and as long as nothing happens, the loop goes on through every turn before the timeout, and the
  first turn after it ends the loop, cleanly.
\<close>

theorem idle_daemon_exits:
  assumes st: "unused st" "sv_running st" "sv_idle_since st = Some since"
    and ps: "\<forall>p \<in> set ps. quiet p \<and> e_now (t_env p) - since < idle_timeout"
    and t: "quiet t" "idle_timeout \<le> e_now (t_env t) - since"
  shows "run_loop ps st = None \<and> run_loop (ps @ t # later) st = Some (Inr (True, st\<lparr>sv_running := False\<rparr>))"
  using ps
proof (induction ps)
  case Nil
  have "run_loop ts (st\<lparr>sv_running := False\<rparr>) = Some (Inr (True, st\<lparr>sv_running := False\<rparr>))" for ts
    by (simp add: run_loop.simps)
  then show ?case
    using st(2) quiet_turn [OF st(1) t(1) st(3)] t(2) by (simp add: run_loop.simps [of "[]"] run_loop.simps [of "t # later"])
next
  case (Cons p ps)
  then have "loop_turn (t_env p) (t_cmds p) (t_disconnected p) (t_result p) (interfere p st) = Inr (True, st)"
    using quiet_turn [OF st(1) _ st(3), of p] by simp
  with Cons st(2) show ?case by (simp add: run_loop.simps [of "p # xs" for xs])
qed

theorem idle_daemon_exits_witness:
  "\<exists>st'. run_loop [demo_turn_of (Kev_events []),
     demo_turn_of (Kev_events [])\<lparr>t_env := demo_env\<lparr>e_now := 600 * 10 ^ 9\<rparr>\<rparr>] demo_start = Some (Inr (True, st')) \<and>
     \<not> sv_running st'"
proof -
  have "unused demo_start" "sv_running demo_start" "sv_idle_since demo_start = Some 0"
    by (simp_all add: unused_def demo_start_def server_start_def server_new_def emit_def ws_new_def)
  from idle_daemon_exits [OF this, of "[demo_turn_of (Kev_events [])]"
      "demo_turn_of (Kev_events [])\<lparr>t_env := demo_env\<lparr>e_now := 600 * 10 ^ 9\<rparr>\<rparr>" "[]"]
  show ?thesis by (simp add: quiet_def demo_turn_of_def demo_env_def idle_timeout_def)
qed

end
