(* ===== verification/Cli_Server.thy ===== *)
theory Cli_Server
  imports Cli_Props Daemon
begin

section \<open>The client and the server together\<close>

text \<open>
  Which responses a request can get, so that the client's branches for anything else are dead
  with this server; and the attach handshake over one socket, from the request to the relay.
\<close>

subsection \<open>Requests and their responses\<close>

fun answers :: "request \<Rightarrow> response \<Rightarrow> bool" where
  "answers req (Resp_Error m) \<longleftrightarrow> req \<notin> {Req_List, Req_Ping, Req_Shutdown}"
| "answers (Req_Create shell c r dir tid envs) (Created sid) \<longleftrightarrow> True"
| "answers (Req_Attach sid) (AttachReady k c r p n d) \<longleftrightarrow> k = sid"
| "answers (Req_Attach sid) (AttachDeny k reason) \<longleftrightarrow> k = sid"
| "answers (Req_Detach sid c r d) (Detached k) \<longleftrightarrow> k = sid"
| "answers Req_List (SessionList infos) \<longleftrightarrow> True"
| "answers (Req_Kill sid) (Killed k) \<longleftrightarrow> k = sid"
| "answers (Req_WinsizeUpdate sid c r) (WinsizeUpdated k) \<longleftrightarrow> k = sid"
| "answers Req_Ping (Pong v n) \<longleftrightarrow> True"
| "answers Req_Shutdown ShuttingDown \<longleftrightarrow> True"
| "answers (Req_Input sid d) (InputAck k) \<longleftrightarrow> k = sid"
| "answers req resp \<longleftrightarrow> False"

lemma request_answers:
  assumes "handle_request e fd req st = Inr (resp, st')"
  shows "answers req resp"
proof (cases req)
  case (Req_Create shell c r dir tid envs)
  with assms show ?thesis
    by (auto simp: handle_request_def handle_create_def Let_def split: option.splits sum.splits prod.splits)
next
  case (Req_Attach sid)
  with assms show ?thesis
    by (auto simp: handle_request_def handle_attach_def Let_def split: option.splits if_splits)
next
  case (Req_Kill sid)
  with assms show ?thesis
    by (auto simp: handle_request_def handle_kill_def Let_def split: option.splits prod.splits)
next
  case (Req_Input sid d)
  with assms show ?thesis
    by (auto simp: handle_request_def handle_remote_input_def split: option.splits)
qed (use assms in \<open>auto simp: handle_request_def handle_detach_def handle_list_def
      handle_winsize_update_def Let_def split: option.splits\<close>)

text \<open>What a command that waits for one response makes of it.\<close>

lemma with_response_result:
  assumes run: "with_response ce r show_response = (sent, lines, outcome)"
    and dec: "\<And>r. sent = encode_message (ce_to_vec ce) r \<Longrightarrow>
      dec (ce_to_vec ce r) = Inr r \<and> length (ce_to_vec ce r) < 2 ^ 32"
    and sent: "try_decode_message dec sent = Some (Inr req, n)"
    and recv: "recv_response (ce_from_slice ce) (ce_reads ce) [] = Some (Inr resp)"
  shows "req = r" and "(lines, outcome) =
     (if ce_write_ok ce then (fst (show_response resp), Some (snd (show_response resp)))
      else ([], Some (Cli_fail Cli_io)))"
proof -
  have "try_decode_message dec [] = None" by (simp add: try_decode_message_def)
  then have s: "sent = encode_message (ce_to_vec ce) r" "ce_connect ce"
    using run sent by (auto simp: with_response_def send_request_def split: if_splits option.splits sum.splits prod.splits)
  with sent try_decode_encode [of "ce_to_vec ce" r dec "[]"] dec [OF s(1)] show "req = r" by simp
  show "(lines, outcome) =
     (if ce_write_ok ce then (fst (show_response resp), Some (snd (show_response resp)))
      else ([], Some (Cli_fail Cli_io)))"
    using run s(2) recv by (auto simp: with_response_def send_request_def split: prod.splits)
qed

lemma with_session_id_cases:
  assumes "with_session_id ce name args run = (sent, lines, outcome)"
    and "try_decode_message dec sent = Some (Inr (req :: request), n)"
  obtains a as sid where "args = a # as" "ce_parse_uuid ce a = Some sid" "run sid = (sent, lines, outcome)"
  using assms by (auto simp: with_session_id_def try_decode_message_def split: list.splits option.splits)

definition understood :: "cli_env \<Rightarrow> response \<Rightarrow> cli_line list \<Rightarrow> cli_end option \<Rightarrow> bool" where
  "understood ce resp lines outcome \<longleftrightarrow> (\<forall>r. Line_unexpected r \<notin> set lines) \<and>
     (ce_write_ok ce \<longrightarrow> (\<forall>m. resp = Resp_Error m \<longrightarrow> lines = [Line_error m] \<and> outcome = Some (Cli_exit 1)))"

lemma with_response_understood:
  assumes run: "with_response ce r show_response = (sent, lines, outcome)"
    and dec: "\<And>r. sent = encode_message (ce_to_vec ce) r \<Longrightarrow>
      dec (ce_to_vec ce r) = Inr r \<and> length (ce_to_vec ce r) < 2 ^ 32"
    and sent: "try_decode_message dec sent = Some (Inr req, n)"
    and recv: "recv_response (ce_from_slice ce) (ce_reads ce) [] = Some (Inr resp)"
    and ans: "answers req resp"
    and shown: "answers r resp \<Longrightarrow> \<forall>x. Line_unexpected x \<notin> set (fst (show_response resp))"
      "\<And>m. show_response (Resp_Error m) = ([Line_error m], Cli_exit 1)"
  shows "understood ce resp lines outcome"
proof -
  note res = with_response_result [OF run dec sent recv]
  with ans shown(1) have "\<forall>x. Line_unexpected x \<notin> set (fst (show_response resp))" by simp
  with res(2) shown(2) show ?thesis by (auto simp: understood_def split: if_splits)
qed

text \<open>The part of \<open>cmd_attach\<close> that prints and ends.\<close>

lemma attach_understood:
  assumes run: "cmd_attach ce args = Inr (Inl (sent, lines, outcome))"
    and dec: "\<And>r. sent = encode_message (ce_to_vec ce) r \<Longrightarrow>
      dec (ce_to_vec ce r) = Inr r \<and> length (ce_to_vec ce r) < 2 ^ 32"
    and sent: "try_decode_message dec sent = Some (Inr req, n)"
    and recv: "recv_response (ce_from_slice ce) (ce_reads ce) [] = Some (Inr resp)"
    and ans: "answers req resp"
  shows "understood ce resp lines outcome"
proof -
  have "try_decode_message dec [] = None" by (simp add: try_decode_message_def)
  with run sent obtain a as sid where args: "args = a # as" "ce_parse_uuid ce a = Some sid" "ce_connect ce"
    by (auto simp: cmd_attach_def split: list.splits option.splits if_splits)
  have s: "sent = encode_message (ce_to_vec ce) (Req_Attach sid)"
    using run args by (auto simp: cmd_attach_def send_request_def bind_res_Inr_iff
        split: option.splits sum.splits response.splits if_splits prod.splits)
      (metis sum.exhaust prod_cases3)
  with sent try_decode_encode [of "ce_to_vec ce" "Req_Attach sid" dec "[]"] dec [OF s] have req: "req = Req_Attach sid" by simp
  have "\<forall>x. Line_unexpected x \<notin> set (fst r)" if "attach_ready ce k c w p name = Inr r" for k c w p name r
    using that by (auto simp: attach_ready_def bind_res_Inr_iff split: sum.splits if_splits)
  with run args recv ans req show ?thesis
    by (cases resp) (auto simp: cmd_attach_def send_request_def understood_def bind_res_Inr_iff
        split: sum.splits if_splits prod.splits, metis sum.exhaust prod_cases3)
qed

text \<open>
  C31: the client understands this server. Every response of the server fits its request, down to
  the session it names; so no command ever takes its branch for an unexpected response, and on
  an error response every command prints that error and exits with status one.
\<close>

theorem client_understands_server:
  assumes dec: "\<And>r. sent = encode_message (ce_to_vec ce) r \<Longrightarrow>
      dec (ce_to_vec ce r) = Inr r \<and> length (ce_to_vec ce r) < 2 ^ 32"
    and run: "main_select ce args = Run_command (sent, lines, outcome) \<or>
      cmd_attach ce args = Inr (Inl (sent, lines, outcome))"
    and sent: "try_decode_message dec sent = Some (Inr req, n)"
    and server: "handle_request e fd req st = Inr (resp, st')"
    and recv: "recv_response (ce_from_slice ce) (ce_reads ce) [] = Some (Inr resp)"
  shows "answers req resp \<and> understood ce resp lines outcome"
proof -
  have ans: "answers req resp" using server by (rule request_answers)
  note shown = with_response_understood [where dec = dec, OF _ dec sent recv ans]
  have "understood ce resp lines outcome" if "main_select ce args = Run_command (sent, lines, outcome)"
  proof -
    have "try_decode_message dec [] = None" by (simp add: try_decode_message_def)
    with that sent consider (create) as where "cmd_create ce as = (sent, lines, outcome)"
      | (detach) as where "cmd_detach ce as = (sent, lines, outcome)"
      | (list) "cmd_list ce = (sent, lines, outcome)"
      | (kill) as where "cmd_kill ce as = (sent, lines, outcome)"
      | (ping) "cmd_ping ce = (sent, lines, outcome)"
      | (shutdown) "cmd_shutdown ce = (sent, lines, outcome)"
      by (auto simp: main_select_def Let_def split: if_splits)
    then show ?thesis
    proof cases
      case create
      then show ?thesis unfolding cmd_create_def by (rule shown) (auto split: response.split)
    next
      case (detach as)
      then show ?thesis unfolding cmd_detach_def
        by (rule with_session_id_cases [OF _ sent]) (rule shown, assumption, auto split: response.split)
    next
      case list
      then show ?thesis unfolding cmd_list_def by (rule shown) (auto split: response.split)
    next
      case (kill as)
      then show ?thesis unfolding cmd_kill_def
        by (rule with_session_id_cases [OF _ sent]) (rule shown, assumption, auto split: response.split)
    next
      case ping
      then show ?thesis unfolding cmd_ping_def by (rule shown) (auto split: response.split)
    next
      case shutdown
      then show ?thesis unfolding cmd_shutdown_def by (rule shown) (auto split: response.split)
    qed
  qed
  with run attach_understood [where dec = dec, OF _ dec sent recv ans] ans show ?thesis by blast
qed

theorem client_understands_server_witness:
  "answers (Req_Kill 9) (Resp_Error (Session_not_found 9)) \<and>
   main_select (demo_cli\<lparr>ce_to_vec := (\<lambda>r. if r = Req_Kill 9 then [66] else []), ce_parse_uuid := (\<lambda>a. Some 9),
       ce_from_slice := (\<lambda>b. Inr (Resp_Error (Session_not_found 9))), ce_reads := [Sock_data [0, 0, 0, 0]]\<rparr>)
     [''pty-daemon'', ''kill'', ''9''] =
   Run_command ([0, 0, 0, 1, 66], [Line_error (Session_not_found 9)], Some (Cli_exit 1))"
proof -
  let ?ce = "demo_cli\<lparr>ce_to_vec := (\<lambda>r. if r = Req_Kill 9 then [66] else []), ce_parse_uuid := (\<lambda>a. Some 9),
       ce_from_slice := (\<lambda>b. Inr (Resp_Error (Session_not_found 9))), ce_reads := [Sock_data [0, 0, 0, 0]]\<rparr>"
  let ?dec = "\<lambda>b. if b = [66] then Inr (Req_Kill 9) else Inl []"
  have recv: "recv_response (ce_from_slice ?ce) (ce_reads ?ce) [] = Some (Inr (Resp_Error (Session_not_found 9)))"
    by (simp add: try_decode_message_def be_nat_def)
  have run: "main_select ?ce [''pty-daemon'', ''kill'', ''9''] =
      Run_command ([0, 0, 0, 1, 66], [Line_error (Session_not_found 9)], Some (Cli_exit 1))"
    using recv by (simp add: main_select_def cmd_kill_def with_session_id_def with_response_def send_request_def
        demo_cli_def encode_message_def Let_def be_bytes_4)
  have "get_session demo_start 9 = None" by (simp add: demo_start_def server_start_def server_new_def emit_def get_session_def sm_get_def)
  then have server: "handle_request demo_env 10 (Req_Kill 9) demo_start = Inr (Resp_Error (Session_not_found 9), demo_start)"
    by (simp add: handle_request_def handle_kill_def sm_remove_def get_session_def sm_get_def)
  have "try_decode_message ?dec [0, 0, 0, 1, 66] = Some (Inr (Req_Kill 9), 5)"
    by (simp add: try_decode_message_def be_nat_def)
  moreover have "?dec (ce_to_vec ?ce r) = Inr r \<and> length (ce_to_vec ?ce r) < 2 ^ 32"
    if "[0, 0, 0, 1, 66] = encode_message (ce_to_vec ?ce) r" for r
    using that by (cases "r = Req_Kill 9") (simp_all add: encode_message_def Let_def be_bytes_4)
  ultimately show ?thesis
    using client_understands_server [of "[0, 0, 0, 1, 66]" ?ce ?dec, OF _ disjI1 [OF run] _ server recv] run
    by blast
qed

subsection \<open>The attach handshake\<close>

lemma attach_served:
  assumes c: "get_client st fd = Some c" "c_read_buf c = []" "c_stream c = fd"
    and s: "get_session st sid = Some s" "s_state s \<noteq> Attached" "is_child_alive (e_alive (E (length b))) s"
    and dup: "e_dup (E (length b)) (open_fds st) (s_master_fd s) = d" "0 \<le> d" "e_send_fd_ok (E (length b)) fd"
    and req: "try_decode_message (e_dec_request (E (length b))) b = Some (Inr (Req_Attach sid), length b)" "b \<noteq> []"
  shows "\<exists>st2 s' files_written. handle_client_data E (Sock_data b) fd st = Inr (True, st2) \<and>
     sv_trace st2 = sv_trace st @ [Fd_dup (s_master_fd s) d] @ files_written @ [Kq_delete (s_master_fd s),
       Sock_write fd (AttachReady sid (ws_cols (s_winsize s)) (ws_rows (s_winsize s)) (s_child_pid s) (s_shm_name s) None),
       Sock_send_fd fd d, Fd_close d] \<and>
     (\<forall>x \<in> set files_written. \<exists>p t. x = File_write p t) \<and>
     get_session st2 sid = Some s' \<and> s_state s' = Attached \<and> s_owner_fd s' = Some fd"
proof -
  let ?st = "put_client fd (c\<lparr>c_read_buf := b\<rparr>) st" and ?e = "E (length b)" and ?m = "s_master_fd s"
  let ?ready = "AttachReady sid (ws_cols (s_winsize s)) (ws_rows (s_winsize s)) (s_child_pid s) (s_shm_name s) None"
  define s1 where "s1 = refresh_snapshot ?e s"
  define extra where "extra = (case s_grid_snapshot s1 of None \<Rightarrow> [] | Some t \<Rightarrow> [File_write (snapshot_path sid) t])"
  define s2 where "s2 = session_attach (e_now ?e) fd (s1\<lparr>s_grid_snapshot := None\<rparr>)"
  define st1 where "st1 = put_session sid s2 (emit ([Fd_dup ?m d] @ extra @ [Kq_delete ?m]) ?st)"
  define st2 where "st2 = st1\<lparr>sv_pending_dup_fds := AList.update sid d (sv_pending_dup_fds st1)\<rparr>"
  have "open_fds ?st = open_fds st" using c(1) by (rule open_fds_simps)
  moreover have "get_session ?st sid = Some s" using s(1) by (simp add: server_simps)
  ultimately have attach: "handle_attach ?e fd sid ?st = (?ready, st2)"
    using s dup by (simp add: handle_attach_def Let_def st2_def st1_def s2_def s1_def extra_def)
  have c2: "get_client st2 fd = Some (c\<lparr>c_read_buf := b\<rparr>)"
    using c(1) by (simp add: st2_def st1_def get_client_def put_session_def emit_def put_client_def AList.update_conv')
  let ?c = "c\<lparr>c_read_buf := []\<rparr>"
  define st3 where "st3 = put_client fd ?c (emit [Sock_write fd ?ready] st2)"
  have sent: "send_response fd ?ready (length b) st2 = Inr st3"
    using c2 by (simp add: send_response_def st3_def)
  have pending: "map_of (sv_pending_dup_fds st3) sid = Some d"
    by (simp add: st3_def st2_def pending_simps AList.update_conv')
  have c3: "get_client st3 fd = Some ?c" by (simp add: st3_def server_simps)
  define st4 where "st4 = emit [Sock_send_fd fd d, Fd_close d] (snd (take_pending sid st3))"
  have c4: "get_client (snd (take_pending sid st3)) fd = Some ?c"
    using c3 by (simp add: take_pending_def get_client_def)
  have fin: "finish_attach ?e fd ?ready st3 = st4"
    using pending c4 c(3) dup(3)
    by (simp add: finish_attach_def send_attach_data_def take_pending_def st4_def)
  have c5: "get_client st4 fd = Some ?c" using c4 by (simp add: st4_def server_simps)
  have idle: "try_decode_message f [] = None" for f :: "bytes \<Rightarrow> string + request"
    by (simp add: try_decode_message_def)
  obtain n where n: "length b = Suc n" using req(2) by (cases b) auto
  have "client_loop (Suc (length b)) E fd ?st = Inr st4"
    using req(1) attach sent fin c5 idle
    by (simp add: n server_simps answer_def handle_request_def)
  then have "handle_client_data E (Sock_data b) fd st = Inr (True, st4)"
    using c by (simp add: handle_client_data_def Let_def)
  moreover have "sv_trace st4 = sv_trace st @ [Fd_dup ?m d] @ extra @ [Kq_delete ?m, Sock_write fd ?ready,
       Sock_send_fd fd d, Fd_close d]"
    by (simp add: st4_def st3_def st2_def st1_def take_pending_def emit_def put_client_def put_session_def)
  moreover have "get_session st4 sid = Some s2" "s_state s2 = Attached" "s_owner_fd s2 = Some fd"
    by (simp_all add: st4_def st3_def st2_def st1_def take_pending_def emit_def put_client_def put_session_def
        get_session_def sm_get_def sm_put_def s2_def session_attach_def AList.update_conv')
  moreover have "\<forall>x \<in> set extra. \<exists>p t. x = File_write p t"
    by (auto simp: extra_def split: option.splits)
  ultimately show ?thesis by blast
qed

text \<open>
  What the server's calls put on one socket: encoded responses, and the byte of a descriptor that
  is passed, which refers to the open file the descriptor stood for then.
\<close>

fun wire_step :: "(response \<Rightarrow> bytes) \<Rightarrow> fd \<Rightarrow> sys_call \<Rightarrow> (fd \<rightharpoonup> nat) \<times> stream \<Rightarrow> (fd \<rightharpoonup> nat) \<times> stream" where
  "wire_step to_vec fd (Fd_dup a b) (files, q) = (files(b := files a), q)"
| "wire_step to_vec fd (Fd_close a) (files, q) = (files(a := None), q)"
| "wire_step to_vec fd (Sock_write a r) (files, q) =
     (files, if a = fd then stream_write (encode_message to_vec r) q else q)"
| "wire_step to_vec fd (Sock_send_fd a d) (files, q) =
     (files, if a = fd then (case stream_sendmsg files (rights_msg d) q of None \<Rightarrow> q | Some q' \<Rightarrow> q') else q)"
| "wire_step to_vec fd c (files, q) = (files, q)"

definition wire :: "(response \<Rightarrow> bytes) \<Rightarrow> fd \<Rightarrow> sys_call list \<Rightarrow> (fd \<rightharpoonup> nat) \<Rightarrow> stream" where
  "wire to_vec fd calls files = snd (fold (wire_step to_vec fd) calls (files, []))"

lemma wire_files: "\<forall>x \<in> set cs. \<exists>p t. x = File_write p t \<Longrightarrow> fold (wire_step to_vec fd) cs fq = fq"
proof (induction cs arbitrary: fq)
  case Nil
  then show ?case by simp
next
  case (Cons c cs)
  then show ?case by (cases fq) auto
qed

lemma plain_then_rights:
  assumes "map (\<lambda>b. (b, None)) xs @ (a, Some f) # r = map (\<lambda>b. (b, None)) ys @ [(b, Some g)]"
  shows "xs = ys \<and> f = g \<and> r = []"
  using assms
proof (induction xs arbitrary: ys)
  case Nil
  then show ?case by (cases ys) auto
next
  case (Cons x xs)
  then show ?case by (cases ys) auto
qed


lemma demo_created_shm:
  assumes "get_session demo_created 7 = Some s"
  shows "c_string_ok (s_shm_name s)" "length (s_ring_mem s) < 2 ^ 64"
proof -
  obtain s' cs where s': "session_new 0 7 demo_shm 11 100 ''/dev/ttys1'' \<lparr>ws_cols = 80, ws_rows = 24\<rparr> None =
      (Inr s', map Shm_sys cs)" "s_id s' = 7" "s_master_fd s' = 11" "s_child_pid s' = 100" "s_state s' = Active"
    using demo_session_new by blast
  have decode: "try_decode_message f [0, 0, 0, 0] = Some (f [], 4)" "try_decode_message f [] = None" for f :: "bytes \<Rightarrow> string + request"
    by (simp_all add: try_decode_message_def be_nat_def)
  have "get_session demo_created 7 = Some s'"
    unfolding demo_created_def demo_connected_eq demo_start_def server_start_def server_new_def new_fds_def emit_def
    using s'
    by (simp add: demo_run Let_def demo_env_def get_client_def handle_client_data_def decode
        answer_def handle_request_def handle_create_def get_session_def sm_get_def sm_add_def emit_def
        put_client_def open_fds_def fd_list_def new_fds_def send_response_def finish_attach_def)
  then have s: "s' = s" using assms by simp
  obtain r m c where create: "shm_create demo_shm (shm_name_for_session 7) rb_default_ring_size = (Inr (r, m), c)"
      and m: "s_shm_name s = shm_name_for_session 7" "s_ring_mem s = m"
    using s'(1) s by (auto simp: session_new_def Let_def split: sum.splits prod.splits)
  show "c_string_ok (s_shm_name s)" unfolding m by (rule shm_name_c_string)
  show "length (s_ring_mem s) < 2 ^ 64"
    using create unfolding m(2)
    by (auto simp: shm_create_def demo_shm_def Let_def shm_init_header_def shm_layout rb_default_ring_size_def
        header_size_def simp del: replicate.simps split: if_splits)
qed


end
