(* ===== verification/Ws_Start.thy ===== *)
theory Ws_Start
  imports Pty Ws_Conn
begin

section \<open>Starting the WebSocket server (\<open>start_ws_server\<close>)\<close>

text \<open>
  The port comes from the environment, as the decimal text of a 16-bit number; anything else
  means the default. The thread binds it and then accepts for ever, one task per connection. When
  the port cannot be bound the thread ends, and with it the only sender of commands: the main
  loop sees a disconnected channel and goes on without remote viewers.
\<close>

definition default_ws_port :: u16 where "default_ws_port = 7685"

definition digit_of :: "char \<Rightarrow> nat option" where
  "digit_of c = (if c \<in> set ''0123456789'' then Some (of_char c - 48) else None)"

text \<open>\<open>u16::from_str\<close>: checked digits after an optional plus sign.\<close>

fun parse_digits :: "nat \<Rightarrow> string \<Rightarrow> nat option" where
  "parse_digits n [] = Some n"
| "parse_digits n (c # cs) =
     (case digit_of c of
        None \<Rightarrow> None
      | Some d \<Rightarrow> if 10 * n + d < 2 ^ 16 then parse_digits (10 * n + d) cs else None)"

definition parse_u16 :: "string \<Rightarrow> u16 option" where
  "parse_u16 s =
     (let ds = (case s of [] \<Rightarrow> [] | c # cs \<Rightarrow> if c = CHR ''+'' then cs else s)
      in if ds = [] then None else map_option of_nat (parse_digits 0 ds))"

definition ws_port :: "string option \<Rightarrow> u16" where
  "ws_port var =
     (case var of
        None \<Rightarrow> default_ws_port
      | Some s \<Rightarrow> (case parse_u16 s of None \<Rightarrow> default_ws_port | Some p \<Rightarrow> p))"

text \<open>
  What the thread has done: the port it is bound to, and a fresh connection task for every
  \<open>accept\<close> that succeeded; an \<open>accept\<close> that fails is logged and skipped. Without a port the
  command channel is closed.
\<close>

fun ws_accept_loop :: "'s list \<Rightarrow> (string + 's) list \<Rightarrow> 's list" where
  "ws_accept_loop tasks [] = tasks"
| "ws_accept_loop tasks (Inr stream # rs) = ws_accept_loop (tasks @ [stream]) rs"
| "ws_accept_loop tasks (Inl err # rs) = ws_accept_loop tasks rs"

record 's ws_thread =
  wt_port :: u16
  wt_tasks :: "'s list"
  wt_channel_open :: bool

definition start_ws_server ::
  "string option \<Rightarrow> (u16 \<Rightarrow> bool) \<Rightarrow> (string + 's) list \<Rightarrow> ws_shared \<times> 's ws_thread" where
  "start_ws_server var bind_ok accepts =
     (ws_new,
      if bind_ok (ws_port var)
      then \<lparr>wt_port = ws_port var, wt_tasks = ws_accept_loop [] accepts, wt_channel_open = True\<rparr>
      else \<lparr>wt_port = ws_port var, wt_tasks = [], wt_channel_open = False\<rparr>)"

subsection \<open>Properties\<close>

lemma digit_of_hex: "d < 10 \<Longrightarrow> digit_of (hex_digit d) = Some d"
  by (auto simp: less_Suc_eq numeral_eq_Suc hex_digit_def digit_of_def)

lemma hex_digit_plus: "d < 10 \<Longrightarrow> hex_digit d \<noteq> CHR ''+''"
  by (auto simp: less_Suc_eq numeral_eq_Suc hex_digit_def)

lemma parse_digits_append:
  "parse_digits n (xs @ ys) = (case parse_digits n xs of None \<Rightarrow> None | Some m \<Rightarrow> parse_digits m ys)"
  by (induction n xs rule: parse_digits.induct) (auto split: option.split)

lemma parse_digits_digits: "parse_digits 0 (digits n) = (if n < 2 ^ 16 then Some n else None)"
proof (induction n rule: digits.induct)
  case (1 n)
  show ?case
  proof (cases "n < 10")
    case True
    then show ?thesis by (subst digits.simps) (simp add: digit_of_hex)
  next
    case False
    have "parse_digits 0 (digits n) =
        (case parse_digits 0 (digits (n div 10)) of None \<Rightarrow> None | Some m \<Rightarrow> parse_digits m [hex_digit (n mod 10)])"
      using False by (subst digits.simps) (simp add: parse_digits_append)
    moreover have "n div 10 < 2 ^ 16" if "n < 2 ^ 16" using that by simp
    moreover have "10 * (n div 10) + n mod 10 = n" by simp
    ultimately show ?thesis using 1 False by (auto simp: digit_of_hex)
  qed
qed

lemma digits_Cons: "\<exists>d cs. digits n = hex_digit d # cs \<and> d < 10"
proof (induction n rule: digits.induct)
  case (1 n)
  show ?case
  proof (cases "n < 10")
    case True
    then show ?thesis by (subst digits.simps) auto
  next
    case False
    from 1 [OF False] obtain d cs where d: "digits (n div 10) = hex_digit d # cs" "d < 10" by blast
    with False have "digits n = hex_digit d # (cs @ [hex_digit (n mod 10)])"
      by (subst digits.simps) simp
    with d(2) show ?thesis by blast
  qed
qed

text \<open>
  The port is read back from its decimal text exactly when it fits 16 bits, with or without a
  sign; a larger number is not truncated but means the default.
\<close>

theorem ws_port_decimal:
  "ws_port (Some (digits n)) = (if n < 2 ^ 16 then of_nat n else default_ws_port) \<and>
   ws_port (Some (CHR ''+'' # digits n)) = (if n < 2 ^ 16 then of_nat n else default_ws_port)"
proof -
  obtain d cs where d: "digits n = hex_digit d # cs" "d < 10" using digits_Cons by blast
  with hex_digit_plus [OF d(2)] parse_digits_digits [of n] show ?thesis
    by (simp add: ws_port_def parse_u16_def Let_def)
qed

end
