(* ===== verification/Defects.thy ===== *)
theory Defects
  imports Cli_Server Ws_Start Ws_Evolves Two_Writers
begin

section \<open>What the code does not do\<close>

text \<open>
  Short theorems about the model for behaviours that the source's comments, names or other paths
  would make one expect otherwise. Each says what happens, under hypotheses that the properties
  of the other theories show can hold.
\<close>

subsection \<open>The shared ring\<close>

text \<open>
  \<open>dump\<close> ignores a position outside the ring; \<open>read_since\<close>, on the same mapping, reads there.
\<close>

theorem read_since_leaves_the_mapping:
  assumes "even (unat (load_u64 mem sequence_off))"
    and "load_u64 mem total_written_off = last_total + of_nat n" "\<not> load_u64 mem total_written_off \<le> last_total"
    and "0 < n" "n < sr_capacity r" "sr_capacity r < 2 ^ 63" "sr_capacity r + n < unat (load_u64 mem write_pos_off)"
  shows "shm_read_since r mem last_total = Inl Out_of_bounds"
    and "load_u32 mem 0 = shm_magic \<Longrightarrow> shm_dump r mem = Inr []"
proof -
  have n: "unat (load_u64 mem total_written_off - last_total) = n"
    using assms(2,5,6) by (simp add: unat_of_nat_u64)
  have "sr_capacity r < unat (load_u64 mem write_pos_off) - n" using assms(7) by linarith
  then show "shm_read_since r mem last_total = Inl Out_of_bounds"
    using assms n by (simp add: shm_read_since_def snapshot_res_iff Let_def)
  have "unat (of_nat (sr_capacity r) :: u64) = sr_capacity r" using assms(6) by (simp add: unat_of_nat_u64)
  then have "of_nat (sr_capacity r) \<le> load_u64 mem write_pos_off" using assms(7) by (simp add: word_le_nat_alt)
  with assms(1) show "load_u32 mem 0 = shm_magic \<Longrightarrow> shm_dump r mem = Inr []"
    by (simp add: shm_dump_def snapshot_res_iff dump_at_def)
qed

text \<open>The sum in the size check of \<open>open\<close> wraps: a capacity near the top of the range is accepted.\<close>

theorem open_accepts_wrapping_capacity:
  assumes "c_string_ok name" "0 \<le> so_open os" "so_fstat os = Some n" "so_mmap os n = Some m"
    and "header_size \<le> n" "n < 2 ^ 63" "load_u32 m 0 = shm_magic" "load_u32 m 4 = shm_version"
    and "load_u64 m 8 = of_nat (2 ^ 64 - header_size)"
  shows "\<exists>r. fst (shm_open os name) = Inr (r, m) \<and> n < sr_capacity r"
proof -
  have cap: "unat (load_u64 m 8) = 2 ^ 64 - header_size"
    unfolding assms(9) by (rule unat_of_nat_u64) (simp add: header_size_def)
  then have big: "n < unat (load_u64 m 8)" using assms(6) by (simp add: header_size_def)
  have "of_nat header_size + load_u64 m 8 = (of_nat (2 ^ 64) :: u64)"
    unfolding assms(9) by (simp add: header_size_def flip: of_nat_add)
  then have "of_nat header_size + load_u64 m 8 = 0" by simp
  then have "\<not> of_nat n < of_nat header_size + load_u64 m 8" by simp
  with big assms(1-5,7,8) show ?thesis by (simp add: shm_open_def Let_def)
qed

text \<open>Two sessions whose ids share their first 32 bits have the same mapping; \<open>create\<close> unlinks it first.\<close>

theorem shm_names_collide:
  assumes "unat a div 2 ^ 96 = unat (b :: uuid) div 2 ^ 96"
  shows "shm_name_for_session a = shm_name_for_session b"
proof -
  have "unat s div 16 ^ (31 - i) = unat s div 2 ^ 96 div 16 ^ (7 - i)" if "i < 8" for s :: uuid and i :: nat
  proof -
    have "(16 :: nat) ^ (31 - i) = 2 ^ 96 * 16 ^ (7 - i)"
    proof -
      have "31 - i = 24 + (7 - i)" using that by simp
      then have "(16 :: nat) ^ (31 - i) = 16 ^ 24 * 16 ^ (7 - i)" by (simp only: power_add)
      then show ?thesis by simp
    qed
    then show ?thesis by (simp only: div_mult2_eq)
  qed
  with assms show ?thesis by (simp add: shm_name_for_session_def uuid_prefix_def)
qed

subsection \<open>The server\<close>

text \<open>
  The snapshot that a client leaves with its detach is replaced at the next attach by the daemon's
  own: what the attach sends and writes does not depend on it.
\<close>

theorem client_snapshot_unused:
  assumes "daemon_snapshot e s \<noteq> None"
  shows "refresh_snapshot e (s\<lparr>s_grid_snapshot := d\<rparr>) = refresh_snapshot e s"
  using assms by (simp add: refresh_snapshot_def daemon_snapshot_def)

text \<open>A client that dies at once after attaching: the parser is fed everything a second time.\<close>

theorem crash_replays_twice:
  assumes "get_session st sid = Some s" "ring_holds s h" "parser_fed s h"
  shows "\<exists>st' s'. crash_detach (sid, s_master_fd s) st = Inr st' \<and> get_session st' sid = Some s' \<and>
     parser_fed s' (h @ last_n (sr_capacity (s_shared_ring s)) h)"
  using crash_detach_result [OF assms(1,2), of h] assms(3) by blast

text \<open>A read error on one client's socket ends the loop, and with it the daemon.\<close>

theorem read_error_ends_loop:
  assumes "get_client st fd \<noteq> None" "ev_ident ev = fd" "ev_filter ev = Filt_read" "\<not> ev_eof ev"
    and "fd \<noteq> sv_listener_fd st" "\<forall>rfd wfd. sv_ws_wakeup_pipe st = Some (rfd, wfd) \<longrightarrow> fd \<noteq> rfd"
    and "e_sock_read (E 0) = Sock_error"
  shows "dispatch_events ((E, ev) # evs) st = Inr (False, st)"
  using assms by (auto simp: dispatch_event_def Let_def handle_client_data_def ctl_of_def split: option.split)

text \<open>The exit of a child whose pid is the number of a client's descriptor is not handled at all.\<close>

theorem child_exit_taken_for_client:
  assumes "get_client st pid \<noteq> None" "ev_ident ev = pid" "ev_filter ev = Filt_proc" "\<not> ev_eof ev"
    and "pid \<noteq> sv_listener_fd st" "\<forall>rfd wfd. sv_ws_wakeup_pipe st = Some (rfd, wfd) \<longrightarrow> pid \<noteq> rfd"
    and "e_sock_read (E 0) = Sock_would_block"
  shows "dispatch_event E ev st = Inr (Go_on, st)"
  using assms by (auto simp: dispatch_event_def Let_def handle_client_data_def ctl_of_def split: option.split)

text \<open>A session that ends by EOF on its PTY is removed, and its remote viewers are told nothing.\<close>

theorem eof_tells_no_viewer:
  assumes "find_by_master_fd (sv_sessions st) fd = Some t" "get_session st (s_id t) = Some s" "s_state s \<noteq> Attached"
  shows "\<exists>st'. handle_session_output e Pty_eof fd st = Inr st' \<and> get_session st' (s_id t) = None \<and>
     sv_ws_sent st' = sv_ws_sent st \<and> sv_ws_shared st' = sv_ws_shared st"
  using assms
  by (auto simp: handle_session_output_def Let_def drop_session_def sm_remove_def emit_def get_session_def sm_get_def
      AList.delete_conv' split: option.split)

text \<open>A request that arrives while the daemon waits for an acknowledgement is dropped unanswered.\<close>

theorem request_dropped_while_waiting:
  assumes "length (to_vec req) < 2 ^ 32" "dec_ack (to_vec req) = Inl err"
  shows "wait_ack_loop dec_ack sid (Ack_data (encode_message to_vec req) # rs) [] = (None, [])"
proof -
  have "try_decode_message dec_ack (encode_message to_vec req) = Some (Inl err, length (encode_message to_vec req))"
    using try_decode_encode [of to_vec req dec_ack "[]"] assms by simp
  then show ?thesis by simp
qed

text \<open>Input for a session that does not exist is acknowledged.\<close>

theorem input_ack_without_session:
  assumes "get_session st sid = None" "e_b64_decode e text = Some data"
  shows "handle_remote_input e sid text st = (InputAck sid, st)"
  using assms by (simp add: handle_remote_input_def handle_ws_input_def)

text \<open>Any client detaches the session of another.\<close>

theorem detach_by_anyone:
  assumes "get_session st sid = Some s" "s_owner_fd s = Some owner" "fd \<noteq> owner"
  shows "\<exists>st' s'. handle_request e fd (Req_Detach sid cols rows d) st = Inr (Detached sid, st') \<and>
     get_session st' sid = Some s' \<and> s_state s' = Active \<and> s_owner_fd s' = None"
  using assms(1) by (auto simp: handle_request_def handle_detach_def Let_def server_simps session_detach_def)

text \<open>
  Within the cooldown after a release, in which a remote detach leaves the session with the local
  client, a remote attach takes it.
\<close>

theorem ws_attach_ignores_cooldown:
  assumes s: "get_session st sid = Some s" "s_state s = Attached" "s_owner_fd s = Some fd" "in_cooldown e s"
    and alive: "is_child_alive (e_alive e) s" and run: "handle_ws_attach e cid sid st = Inr (resp, st')"
  shows "handle_ws_detach e cid sid st = (Detached sid, put_session sid (dec_ws_count s) st) \<and>
     (\<exists>s'. get_session st' sid = Some s' \<and> s_state s' = Active)"
proof -
  have kept: "s_state (dec_ws_count s) = s_state s" "s_previous_owner_fd (dec_ws_count s) = s_previous_owner_fd s"
    "in_cooldown e (dec_ws_count s) = in_cooldown e s"
    by (simp_all add: dec_ws_count_def in_cooldown_def)
  have "handle_ws_detach e cid sid st = (Detached sid, put_session sid (dec_ws_count s) st)"
    using s kept by (simp add: handle_ws_detach_def Let_def server_simps)
  moreover obtain d where "get_session (snd (handle_baton_takeover e sid st)) sid = Some (baton_detach d s)"
    using takeover_result [OF s(1-3), of e] by blast
  moreover have "s_state (baton_detach d s) = Active" "s_state (refresh_snapshot e t) = s_state t" for d t
    by (simp_all add: baton_detach_def session_detach_def Let_def refresh_snapshot_def)
  ultimately show ?thesis
    using run s(1,2) alive
    by (auto simp: handle_ws_attach_def Let_def bind_res_Inr_iff is_child_alive_def server_simps split: if_splits)
qed

subsection \<open>WebSocket connections\<close>

text \<open>
  A connection that attaches to a second session keeps its subscription to the first; when the
  first ends, the table forgets that the connection has a session, although it has the second.
\<close>

theorem reattach_keeps_subscription:
  assumes "wc_phase c = Awaiting True" "sub \<in> set (subs_of w a)" "sub_client_id sub = wc_id c" "a \<noteq> b"
    and "conn_reply (Some (AttachReady b cols rows pid name d)) c w = (c', w', cmds, outs)"
  shows "wc_attached c' = Some b \<and> sub \<in> set (subs_of w' a) \<and>
     map_of (client_sessions w') (wc_id c) = Some b \<and>
     map_of (client_sessions (fst (ws_notify_session_ended a w'))) (wc_id c) = None"
proof -
  have c': "wc_attached c' = Some b" and w': "w' = snd (ws_subscribe b (wc_id c) w)"
    using assms(1,5) by (auto simp: conn_reply_def Let_def split: prod.splits)
  have subs: "map_of (subscribers w') a = map_of (subscribers w) a"
    using assms(4) by (simp add: w' ws_subscribe_def Let_def AList.update_conv')
  then obtain ss where ss: "map_of (subscribers w') a = Some ss" "sub \<in> set ss"
    using assms(2) subs by (cases "map_of (subscribers w) a") (auto simp: subs_of_def)
  have "wc_id c \<in> sub_client_id ` set ss" using ss(2) assms(3) by force
  then have "map_of (client_sessions (fst (ws_notify_session_ended a w'))) (wc_id c) = None"
    using ss(1) by (simp add: ws_notify_session_ended_def alist.look_fold_del)
  moreover have "map_of (client_sessions w') (wc_id c) = Some b"
    by (simp add: w' ws_subscribe_def Let_def AList.update_conv')
  ultimately show ?thesis using c' ss by (simp add: subs_of_def)
qed

text \<open>
  What a session prints between the handling of a remote attach and the subscription that the
  connection's task makes when it gets the reply is recorded, but never reaches that viewer: the
  replay in the reply was taken before, and nothing sent up to then is on the new channel.
\<close>

theorem attach_gap_loses_output:
  assumes core: "sv_core st" and s: "get_session st sid = Some s" "s_state s \<noteq> Attached"
    and alive: "is_child_alive (e_alive e) s" and ring: "ring_holds s h" "h \<noteq> []"
    and bound: "length h + length data < 2 ^ 64" and c: "wc_phase c = Awaiting True"
    and chans: "live_channels (sv_ws_shared st) \<union> fst ` set (sv_ws_sent st) \<subseteq> {..< next_channel (sv_ws_shared st)}"
  shows "\<exists>resp st1 st2 s2 ch. handle_ws_attach e cid sid st = Inr (resp, st1) \<and>
     resp = AttachReady sid (ws_cols (s_winsize s)) (ws_rows (s_winsize s)) (s_child_pid s) (s_shm_name s)
              (Some (e_b64_encode e (last_n (sr_capacity (s_shared_ring s)) h))) \<and>
     handle_session_output e2 (Pty_data data) (s_master_fd s) st1 = Inr st2 \<and>
     get_session st2 sid = Some s2 \<and> ring_holds s2 (h @ data) \<and>
     wc_rx (fst (conn_reply (Some resp) c (sv_ws_shared st2))) = Some ch \<and>
     ch \<notin> fst ` set (sv_ws_sent st2)"
proof -
  have dump: "shm_dump (s_shared_ring s) (s_ring_mem s) = Inr (last_n (sr_capacity (s_shared_ring s)) h)"
    using ring(1) unfolding ring_holds_def by (rule shm_dump_rep)
  have "0 < sr_capacity (s_shared_ring s)" using ring(1) by (simp add: ring_holds_def)
  then have ne: "last_n (sr_capacity (s_shared_ring s)) h \<noteq> []"
    using ring(2) length_last_n [of "sr_capacity (s_shared_ring s)" h] by fastforce
  let ?resp = "AttachReady sid (ws_cols (s_winsize s)) (ws_rows (s_winsize s)) (s_child_pid s) (s_shm_name s)
              (Some (e_b64_encode e (last_n (sr_capacity (s_shared_ring s)) h)))"
  define s1 where "s1 = (refresh_snapshot e s)\<lparr>s_ws_client_count := s_ws_client_count s + 1\<rparr>"
  define st1 where "st1 = emit [Kq_add (s_master_fd s)] (put_session sid s1 st)"
  have kept: "s_state (refresh_snapshot e s) = s_state s" "s_master_fd (refresh_snapshot e s) = s_master_fd s"
    by (simp_all add: refresh_snapshot_def)
  have attach: "handle_ws_attach e cid sid st = Inr (?resp, st1)"
    using s alive dump ne kept by (simp add: handle_ws_attach_def Let_def st1_def s1_def)
  have get1: "get_session st1 sid = Some s1" by (simp add: st1_def get_session_simps)
  have s1: "s_state s1 \<noteq> Attached" "s_master_fd s1 = s_master_fd s" "ring_holds s1 h"
    using s(2) kept ring(1) by (simp_all add: s1_def ring_holds_def del: sr_rep.simps)
  obtain st2 s2 where out: "handle_session_output e2 (Pty_data data) (s_master_fd s) st1 = Inr st2"
      "get_session st2 sid = Some s2" "ring_holds s2 (h @ data)"
    using session_output_effect [OF ws_attach_core [OF core attach] get1 s1(1,3) bound, of e2]
    unfolding s1(2) by blast
  have "ws_part st1 = ws_part st" by (simp add: st1_def ws_part_def emit_def put_session_def)
  with output_evolves [OF out(1)] have evolves: "part_evolves (ws_part st) (ws_part st2)"
    by (simp add: ws_evolves_def)
  then obtain new where next_ch: "next_channel (sv_ws_shared st2) = next_channel (sv_ws_shared st)"
    and new: "sv_ws_sent st2 = sv_ws_sent st @ new" "fst ` set new \<subseteq> live_channels (sv_ws_shared st)"
    by (auto simp: ws_part_def)
  then have sent: "fst ` set (sv_ws_sent st2) \<subseteq> live_channels (sv_ws_shared st) \<union> fst ` set (sv_ws_sent st)"
    by (simp add: image_Un le_supI1)
  have "wc_rx (fst (conn_reply (Some ?resp) c (sv_ws_shared st2))) = Some (next_channel (sv_ws_shared st2))"
    using c by (simp add: conn_reply_def ws_subscribe_def Let_def)
  moreover have "next_channel (sv_ws_shared st2) \<notin> fst ` set (sv_ws_sent st2)"
    using sent chans next_ch by auto
  ultimately show ?thesis using attach out by blast
qed

subsection \<open>The client\<close>

text \<open>A push that the server sent is taken for the response of the next request.\<close>

theorem push_taken_for_response:
  assumes "length (to_vec (p :: push)) < 2 ^ 32" "dec (to_vec p) = Inl err"
  shows "recv_response dec (Sock_data (encode_message to_vec p @ later) # rs) [] = Some (Inl (Bad_response err))"
  using try_decode_encode [of to_vec p dec later] assms by simp

text \<open>What is typed while the PTY takes nothing is lost, and the relay goes on.\<close>

theorem typed_input_lost:
  assumes "pl_stdin p = Some (Some d)" "0x1d \<notin> set d" "pl_write p \<le> 0"
  shows "stdin_step e sid p st = Some st"
  using assms by (simp add: stdin_step_def)

end
