(* ===== verification/Spec2Isabelle.thy ===== *)
theory Spec2Isabelle
  imports Two_Writers Ws_Props Cli_Server Defects
begin

text \<open>
  A model of \<open>ptyd\<close>, the PTY daemon of ETerm, and of its command line client: the Rust crate in
  \<open>src/pty-daemon/src\<close>. All of the crate's program logic is translated; nothing is assumed
  about it that is not proved here. This theory only collects the others.

  \<^bold>\<open>The program.\<close> The daemon keeps shells alive in sessions. Each session has a PTY whose master
  the daemon owns, a ring in shared memory with the newest output, and a terminal parser. A
  local client (the terminal application, or \<open>pty-daemon attach\<close>) attaches over a Unix socket:
  it is passed a duplicate of the master, reads the PTY itself and writes the ring; when it
  detaches or dies the daemon reads the PTY again. Remote viewers connect over WebSocket; while
  they watch, the daemon is the reader (the baton pass), and when the last leaves the session
  goes back to the local client. One thread runs a kqueue loop over the listener, the clients,
  the PTYs, child exits, signals and a wake-up pipe; the WebSocket tasks run on other threads
  and share a table of subscriptions with it.

  \<^bold>\<open>Theories and files.\<close>
  \<^item> \<open>Prelude\<close>, \<open>Memory\<close>: machine types; the faults of a routine (\<open>Panic\<close>, \<open>Out_of_bounds\<close>,
    \<open>Diverges\<close>) as values, with \<open>bind_res\<close> and \<open>run_res\<close>; the newest \<open>n\<close> elements of a list
    and the circular write; integers as bytes and accesses to a byte list.
  \<^item> \<open>Keyed_Table\<close>: the locale \<open>keyed_table\<close> is the contract of a hash map. Association lists, the
    session manager and the server as a table of its sessions meet it, the last also with a kill
    as the removal.
  \<^item> \<open>Ring_Buffer\<close> is \<open>ring_buffer.rs\<close>. It states the locale \<open>byte_ring\<close>: what was written can be
    read back up to the capacity.
  \<^item> \<open>Shared_Ring\<close>, \<open>Shared_Ring_Props\<close>, \<open>Seqlock\<close> are \<open>shared_ring.rs\<close>. The mapping is a byte
    list and every load, store and copy an operation on it. \<open>Shared_Ring_Props\<close> interprets
    \<open>incremental_ring\<close> (an extension of \<open>byte_ring\<close>) for accesses that do not interleave;
    \<open>Seqlock\<close> interleaves a writer and a reader operation by operation (\<open>sl_step\<close>), \<open>Two_Writers\<close>
    two writers (\<open>tw_step\<close>), which the baton pass can bring about.
  \<^item> \<open>Protocol\<close> is \<open>protocol.rs\<close>: requests, responses, pushes and the framing; locale
    \<open>stream_decoder\<close> for a decoder of whole messages over a stream of chunks.
  \<^item> \<open>Terminal_State\<close> is \<open>terminal_state.rs\<close>; \<open>Session\<close> is \<open>session.rs\<close>: the session's record and
    its transitions, the session manager as an association list in the order of insertion.
  \<^item> \<open>Ws_State\<close> is \<open>WsSharedState\<close> of \<open>ws_server.rs\<close>; \<open>Ws_Conn\<close> is a connection's task as a
    state machine on frames, events and replies; \<open>Ws_System\<close> composes any number of tasks with
    the turns of the main loop in one step relation (\<open>sys_step\<close>); \<open>Ws_Evolves\<close> is how the
    server's steps change the shared table; \<open>Ws_Props\<close> has the properties. \<open>Ws_Start\<close> is
    \<open>start_ws_server\<close>: the port from the environment and the accept loop.
  \<^item> \<open>Server_State\<close>, \<open>Server_Handlers\<close>, \<open>Server_Loop\<close> are \<open>server.rs\<close>: the state, one function per
    handler, and one turn of the loop. \<open>Daemon\<close> is the life of the process: \<open>Server::new\<close>, the
    head of \<open>run\<close>, the loop, \<open>cleanup\<close> and \<open>Drop\<close>, up to \<open>cmd_daemon\<close> of \<open>main.rs\<close>.
  \<^item> \<open>Kernel_Tables\<close> runs the trace of system calls on the tables of open and of watched
    descriptors. \<open>Server_Inv\<close>, \<open>Server_Sessions\<close>, \<open>Server_Reach\<close> prove that every handler keeps
    the invariant \<open>sv_inv\<close>; \<open>Server_Props\<close> defines the reachable states (\<open>sv_reach\<close>) and
    \<open>Server_Props\<close>, \<open>Server_Baton\<close>, \<open>Server_Effects\<close>, \<open>Server_Shutdown\<close>, \<open>Server_Total\<close> have the
    properties of the server.
  \<^item> \<open>Pty\<close> is \<open>pty.rs\<close>, with the locale \<open>fd_source\<close> for a kernel that gives out free descriptors;
    \<open>Fd_Passing\<close> is \<open>fd_passing.rs\<close>; \<open>Cli\<close> is the client part of \<open>main.rs\<close>, \<open>Cli_Props\<close> and
    \<open>Cli_Server\<close> have its properties, alone and with the server.
  \<^item> \<open>Defects\<close> has short theorems for what the code does and should not do: a read outside the
    mapping, a wrapping size check, colliding names, lost snapshots and requests, the output that
    a viewer misses while it attaches, and others.

  \<^bold>\<open>State and operations.\<close> A struct is a record with the source's fields (prefixed \<open>s_\<close> for
  \<open>Session\<close>, \<open>sv_\<close> for \<open>Server\<close>, \<open>sr_\<close> for \<open>SharedRingBuffer\<close>), an enum a datatype, a hash map an
  association list. A handler takes the environment it meets (\<open>env\<close>: the answers of the system
  calls and of foreign code) and the state, and returns its response and the new state; the
  calls others can see are appended to \<open>sv_trace\<close>. A call that yields a new descriptor is a
  function of the open ones. A client message meets its own environment (an environment per
  event and per message of the event). Errors are values: \<open>res\<close> for faults, a flag for the
  I/O errors that end the loop, \<open>Resp_Error\<close> for what a client is told.

  \<^bold>\<open>What the lemmas show.\<close>
  \<^item> \<^emph>\<open>Rings\<close>: both rings hold exactly the newest bytes; incremental reads lose and repeat
    nothing; \<open>dump\<close> stays inside the mapping even when it is corrupt; constructors release what
    they hold on every error. In all interleavings with a writer a reader gets a published pair
    of positions, but the data it then copies may be torn; a writer that dies in a
    publication blocks all readers, and a second writer makes the ring lose output.
  \<^item> \<^emph>\<open>Server\<close>: in all reachable states descriptors are neither leaked nor used after closing,
    the daemon watches a PTY exactly when no local client has it, owners are connected; every
    request on a connection is answered once and in order; a client that dies loses no session;
    the baton goes to the daemon and back; output, input, attach, detach, kill and shutdown do
    what they should.
  \<^item> \<^emph>\<open>WebSocket\<close>: a viewer is subscribed or has been told that its session ended; a request is
    answered once; the tasks do not panic; the release on disconnection is dead code.
  \<^item> \<^emph>\<open>Whole process\<close>: turns neither panic nor hang while the rings are intact; however the
    daemon ends, nothing is left; the PTY model meets the contract that the server's invariants
    assume of their environment; the client and the server understand each other, from the
    request for a kill to the exit status and from the request for an attach to the descriptor.

  \<^bold>\<open>Bounds and fuel.\<close> Integers that wrap are words. The ring counters count to \<open>2 ^ 64\<close>;
  theorems about contents ask for histories below that. The
  spin loop \<open>read_snapshot\<close> is a \<open>partial_function\<close>: on a mapping that nobody changes it returns in
  one pass or never, and never is the fault \<open>Diverges\<close>. \<open>client_loop\<close> has the length of the buffer plus one as fuel, which is
  enough because every message takes four bytes. The waits for a client's acknowledgement,
  for a response and in the relay are lists of the results of the successive calls; a list that
  runs out is the deadline, or \<open>None\<close> where the source waits without one.

  \<^bold>\<open>Not modelled.\<close> The text of JSON, Base64 and UUIDs, and the terminal parser, are code of
  other crates: parameters. The tokio runtime and the WebSocket handshake are left out.
  Modes and timeouts of descriptors (non-blocking, \<open>SO_SNDBUF\<close>) act through the results of
  calls only; the descriptor of the kqueue itself is not in the tables. Memory is sequentially
  consistent; the fences of \<open>shared_ring.rs\<close> are what makes this right on weaker hardware. A
  panic loses the state: the cleanup that unwinding runs is not modelled. The formatting of what
  is printed, the numeric values of terminal flags and the text of the usage are not modelled,
  nor are \<open>lib.rs\<close> (module declarations), build files and tests.
\<close>

end
